theory Spec2Isabelle
  imports Complex_Main "HOL-Library.Word"
begin

section \<open>Scalar types, spaces and packed layouts\<close>

text \<open>
  The numeric scalar types a leaf space can carry (\<open>space.dtype\<close>), with the byte size
  and the C alignment numpy reports for them on a 64-bit platform.
\<close>

datatype scalar =
  BoolT | Int8 | Int16 | Int32 | Int64 | UInt8 | UInt16 | UInt32 | UInt64
  | Float16 | Float32 | Float64

fun itemsize :: "scalar \<Rightarrow> nat" where
  "itemsize BoolT = 1"
| "itemsize Int8 = 1"
| "itemsize Int16 = 2"
| "itemsize Int32 = 4"
| "itemsize Int64 = 8"
| "itemsize UInt8 = 1"
| "itemsize UInt16 = 2"
| "itemsize UInt32 = 4"
| "itemsize UInt64 = 8"
| "itemsize Float16 = 2"
| "itemsize Float32 = 4"
| "itemsize Float64 = 8"

definition alignment :: "scalar \<Rightarrow> nat" where
  "alignment d = itemsize d"

text \<open>
  Python exceptions as values. \<open>APIUsageError\<close> and \<open>InvalidAgentError\<close> are the classes of
  \<open>pufferlib.exceptions\<close> the module raises; the others are the built-in exceptions its
  statements can raise. \<open>UnsupportedSchemaError\<close> is a name of the specification only: no
  statement of the module raises it. \<open>EnvError\<close> stands for whatever a wrapped environment
  raises.
\<close>

datatype error =
  APIUsageError | InvalidAgentError | AttributeError | IndexError | KeyError
  | ValueError | TypeError | StopIteration | UnsupportedSchemaError | EnvError nat

text \<open>
  The spaces of \<open>pufferlib.spaces\<close>. \<open>Box\<close> carries its bounds, shape and scalar type,
  \<open>Discrete n\<close> is one choice among \<open>n\<close> (an \<open>int64\<close> scalar of shape \<open>()\<close>),
  \<open>MultiDiscrete nvec\<close> an \<open>int64\<close> vector of shape \<open>(len nvec,)\<close>. \<open>Tuple\<close> and \<open>Dict\<close>
  keep their children in declaration order. No function of the module reads the bounds of
  a \<open>Box\<close> it is given, and the bounds of the views it builds are integers, so bounds are
  integers here.
\<close>

datatype space =
  Box int int "nat list" scalar
  | Discrete nat
  | MultiDiscrete "nat list"
  | Tuple "space list"
  | Dict "(string \<times> space) list"

fun space_dtype :: "space \<Rightarrow> scalar" where
  "space_dtype (Box lo hi shp d) = d"
| "space_dtype (Discrete n) = Int64"
| "space_dtype (MultiDiscrete nvec) = Int64"
| "space_dtype (Tuple elems) = Int64"
| "space_dtype (Dict items) = Int64"

fun space_shape :: "space \<Rightarrow> nat list" where
  "space_shape (Box lo hi shp d) = shp"
| "space_shape (Discrete n) = []"
| "space_shape (MultiDiscrete nvec) = [length nvec]"
| "space_shape (Tuple elems) = []"
| "space_shape (Dict items) = []"

text \<open>\<open>space.n\<close>: only a \<open>Discrete\<close> has the attribute.\<close>

fun space_n :: "space \<Rightarrow> error + nat" where
  "space_n (Discrete n) = Inr n"
| "space_n (Box lo hi shp d) = Inl AttributeError"
| "space_n (MultiDiscrete nvec) = Inl AttributeError"
| "space_n (Tuple elems) = Inl AttributeError"
| "space_n (Dict items) = Inl AttributeError"


text \<open>
  A numpy dtype as \<open>dtype_from_space\<close> builds it: \<open>Base d shp\<close> is \<open>(d, shp)\<close> (the
  scalar \<open>d\<close> itself when \<open>shp = ()\<close>), \<open>Struct\<close> a list of named fields. Every
  \<open>np.dtype\<close> call of the module passes \<open>align=True\<close>: each field starts at the next
  multiple of its alignment, the record's alignment is the largest of its fields' (1 when
  it has none), and its size is padded to a multiple of that.
\<close>

datatype dtype = Base scalar "nat list" | Struct "(string \<times> dtype) list"

definition align_up :: "nat \<Rightarrow> nat \<Rightarrow> nat" where
  "align_up off a = ((off + a - 1) div a) * a"

fun dt_alignment :: "dtype \<Rightarrow> nat"
  and fields_alignment :: "(string \<times> dtype) list \<Rightarrow> nat" where
  "dt_alignment (Base d shp) = alignment d"
| "dt_alignment (Struct fs) = fields_alignment fs"
| "fields_alignment [] = 1"
| "fields_alignment (f # fs) = max (dt_alignment (snd f)) (fields_alignment fs)"

fun dt_itemsize :: "dtype \<Rightarrow> nat"
  and fields_end :: "nat \<Rightarrow> (string \<times> dtype) list \<Rightarrow> nat" where
  "dt_itemsize (Base d shp) = itemsize d * prod_list shp"
| "dt_itemsize (Struct fs) = align_up (fields_end 0 fs) (fields_alignment fs)"
| "fields_end off [] = off"
| "fields_end off (f # fs) =
     fields_end (align_up off (dt_alignment (snd f)) + dt_itemsize (snd f)) fs"

text \<open>The decimal numeral of \<open>i\<close>, and the positional field name \<open>f'f{i}'\<close>.\<close>

definition digit :: "nat \<Rightarrow> char" where
  "digit n = ''0123456789'' ! n"

fun digits :: "nat \<Rightarrow> string" where
  "digits n =
     (if n < 10 then [digit n] else digits (n div 10) @ [digit (n mod 10)])"

definition fname :: "nat \<Rightarrow> string" where
  "fname i = CHR ''f'' # digits i"

fun dtype_from_space :: "space \<Rightarrow> dtype"
  and tuple_fields :: "nat \<Rightarrow> space list \<Rightarrow> (string \<times> dtype) list"
  and dict_fields :: "(string \<times> space) list \<Rightarrow> (string \<times> dtype) list" where
  "dtype_from_space (Tuple elems) = Struct (tuple_fields 0 elems)"
| "dtype_from_space (Dict items) = Struct (dict_fields items)"
| "dtype_from_space (Box lo hi shp d) = Base d shp"
| "dtype_from_space (Discrete n) = Base Int64 []"
| "dtype_from_space (MultiDiscrete nvec) = Base Int64 [length nvec]"
| "tuple_fields i [] = []"
| "tuple_fields i (elem # elems) =
     (fname i, dtype_from_space elem) # tuple_fields (Suc i) elems"
| "dict_fields [] = []"
| "dict_fields (kv # items) =
     (fst kv, dtype_from_space (snd kv)) # dict_fields items"

fun flatten_space :: "space \<Rightarrow> space list"
  and flatten_spaces :: "space list \<Rightarrow> space list"
  and flatten_values :: "(string \<times> space) list \<Rightarrow> space list" where
  "flatten_space (Tuple elems) = flatten_spaces elems"
| "flatten_space (Dict items) = flatten_values items"
| "flatten_space (Box lo hi shp d) = [Box lo hi shp d]"
| "flatten_space (Discrete n) = [Discrete n]"
| "flatten_space (MultiDiscrete nvec) = [MultiDiscrete nvec]"
| "flatten_spaces [] = []"
| "flatten_spaces (e # es) = flatten_space e @ flatten_spaces es"
| "flatten_values [] = []"
| "flatten_values (kv # items) = flatten_space (snd kv) @ flatten_values items"

text \<open>
  Modelled from the spec: \<open>utils._get_dtype_bounds\<close> is not among the sources. The
  specification gives a view the natural minimum and maximum of its scalar type, and
  \<open>[0, 255]\<close> to the one-byte fallback type. The largest finite value of an IEEE float is
  an integer.
\<close>

fun get_dtype_bounds :: "scalar \<Rightarrow> int \<times> int" where
  "get_dtype_bounds BoolT = (0, 1)"
| "get_dtype_bounds Int8 = (- (2 ^ 7), 2 ^ 7 - 1)"
| "get_dtype_bounds Int16 = (- (2 ^ 15), 2 ^ 15 - 1)"
| "get_dtype_bounds Int32 = (- (2 ^ 31), 2 ^ 31 - 1)"
| "get_dtype_bounds Int64 = (- (2 ^ 63), 2 ^ 63 - 1)"
| "get_dtype_bounds UInt8 = (0, 2 ^ 8 - 1)"
| "get_dtype_bounds UInt16 = (0, 2 ^ 16 - 1)"
| "get_dtype_bounds UInt32 = (0, 2 ^ 32 - 1)"
| "get_dtype_bounds UInt64 = (0, 2 ^ 64 - 1)"
| "get_dtype_bounds Float16 = (- 65504, 65504)"
| "get_dtype_bounds Float32 = (- ((2 ^ 24 - 1) * 2 ^ 104), (2 ^ 24 - 1) * 2 ^ 104)"
| "get_dtype_bounds Float64 = (- ((2 ^ 53 - 1) * 2 ^ 971), (2 ^ 53 - 1) * 2 ^ 971)"

text \<open>
  \<open>emulate_observation_space\<close>. Only a \<open>Box\<close> is returned as it is. \<open>dtypes[0]\<close> raises
  \<open>IndexError\<close> when the space has no leaf.
\<close>

fun emulate_observation_space :: "space \<Rightarrow> error + (space \<times> dtype)" where
  "emulate_observation_space (Box lo hi shp d) =
     Inr (Box lo hi shp d, dtype_from_space (Box lo hi shp d))"
| "emulate_observation_space sp =
     (let emulated_dtype = dtype_from_space sp;
          leaves = flatten_space sp;
          dtypes = map space_dtype leaves
      in case dtypes of
           [] \<Rightarrow> Inl IndexError
         | d0 # ds \<Rightarrow>
             (let dtype = (if count_list dtypes d0 = length dtypes then d0 else UInt8);
                  (mmin, mmax) = get_dtype_bounds dtype;
                  numel = dt_itemsize emulated_dtype div itemsize dtype
              in Inr (Box mmin mmax [numel] dtype, emulated_dtype)))"

text \<open>
  \<open>emulate_action_space\<close>. The comprehension \<open>[e.n for e in leaves]\<close> stops at the first
  leaf without the attribute \<open>n\<close>.
\<close>

fun leaf_ns :: "space list \<Rightarrow> error + nat list" where
  "leaf_ns [] = Inr []"
| "leaf_ns (e # es) =
     (case space_n e of
        Inl err \<Rightarrow> Inl err
      | Inr n \<Rightarrow> (case leaf_ns es of Inl err \<Rightarrow> Inl err | Inr ns \<Rightarrow> Inr (n # ns)))"

fun emulate_action_space :: "space \<Rightarrow> error + (space \<times> dtype)" where
  "emulate_action_space (Discrete n) = Inr (Discrete n, Base Int64 [])"
| "emulate_action_space sp =
     (let emulated_dtype = dtype_from_space sp;
          leaves = flatten_space sp
      in case leaf_ns leaves of
           Inl err \<Rightarrow> Inl err
         | Inr ns \<Rightarrow> Inr (MultiDiscrete ns, emulated_dtype))"


fun is_discrete :: "space \<Rightarrow> bool" where
  "is_discrete (Discrete n) = True"
| "is_discrete sp = False"

section \<open>The codec\<close>

text \<open>
  A numpy array is a byte buffer read through a dtype. The scalar values the buffer
  holds are kept abstract (\<open>'v\<close>): \<open>enc d v\<close> is the byte image numpy stores for \<open>v\<close> in
  an element of scalar type \<open>d\<close> (after its conversion to \<open>d\<close>), \<open>dec d bs\<close> the Python
  scalar \<open>.item()\<close> gives back for an element of type \<open>d\<close> whose bytes are \<open>bs\<close>.

  A sample is a \<open>dict\<close>, a \<open>tuple\<close>, or a leaf value: a scalar (\<open>SVal\<close>) or an array with
  its shape and its elements in row-major order (\<open>SArr\<close>).
\<close>

type_synonym byte = "8 word"

datatype 'v sample =
  SDict "(string \<times> 'v sample) list"
  | STuple "'v sample list"
  | SVal 'v
  | SArr "nat list" "'v list"

text \<open>
  An array of scalars as the module hands it out and takes it in: its scalar type, its
  shape (\<open>()\<close> for \<open>np.array\<close> of a Python or numpy scalar) and its bytes, in row-major
  order.
\<close>

datatype ndarray = Array scalar "nat list" "byte list"

definition write_at :: "byte list \<Rightarrow> nat \<Rightarrow> byte list \<Rightarrow> byte list" where
  "write_at buf off bs = take off buf @ bs @ drop (off + length bs) buf"

definition read_at :: "byte list \<Rightarrow> nat \<Rightarrow> nat \<Rightarrow> byte list" where
  "read_at buf off n = take n (drop off buf)"

text \<open>
  \<open>arr[k]\<close> on a record: the offset of the field named \<open>k\<close> inside the record and its
  dtype. numpy raises \<open>ValueError\<close> for a name that is no field and \<open>IndexError\<close> when
  the array is not a record at all.
\<close>

fun field_at :: "nat \<Rightarrow> (string \<times> dtype) list \<Rightarrow> string \<Rightarrow> (nat \<times> dtype) option" where
  "field_at off [] k = None"
| "field_at off (f # fs) k =
     (let start = align_up off (dt_alignment (snd f))
      in if fst f = k then Some (start, snd f)
         else field_at (start + dt_itemsize (snd f)) fs k)"

fun getfield :: "dtype \<Rightarrow> string \<Rightarrow> error + (nat \<times> dtype)" where
  "getfield (Struct fs) k =
     (case field_at 0 fs k of None \<Rightarrow> Inl ValueError | Some x \<Rightarrow> Inr x)"
| "getfield (Base d shp) k = Inl IndexError"

text \<open>
  \<open>arr[()] = sample\<close>. A scalar, or an array of one element, is broadcast to every
  element of the target (to every field, when the target is a record); an array of the
  field's own shape is copied element by element; numpy refuses the other shapes handled
  here with \<open>ValueError\<close>. (Arrays of more than one element whose shape differs from the
  field's but still broadcasts to it are not distinguished from those it refuses.)
\<close>

fun fill :: "(scalar \<Rightarrow> 'v \<Rightarrow> byte list) \<Rightarrow> byte list \<Rightarrow> nat \<Rightarrow> dtype \<Rightarrow> 'v \<Rightarrow> byte list"
  and fill_fields :: "(scalar \<Rightarrow> 'v \<Rightarrow> byte list) \<Rightarrow> byte list \<Rightarrow> nat \<Rightarrow> nat \<Rightarrow>
       (string \<times> dtype) list \<Rightarrow> 'v \<Rightarrow> byte list" where
  "fill enc arr off (Base d shp) v =
     write_at arr off (concat (replicate (prod_list shp) (enc d v)))"
| "fill enc arr off (Struct fs) v = fill_fields enc arr off 0 fs v"
| "fill_fields enc arr base off [] v = arr"
| "fill_fields enc arr base off (f # fs) v =
     (let start = align_up off (dt_alignment (snd f))
      in fill_fields enc (fill enc arr (base + start) (snd f) v) base
           (start + dt_itemsize (snd f)) fs v)"

fun setitem :: "(scalar \<Rightarrow> 'v \<Rightarrow> byte list) \<Rightarrow> byte list \<Rightarrow> nat \<Rightarrow> dtype \<Rightarrow> 'v sample \<Rightarrow>
       byte list \<times> error option" where
  "setitem enc arr off dt (SVal v) = (fill enc arr off dt v, None)"
| "setitem enc arr off dt (SArr s vs) =
     (case vs of
        [v] \<Rightarrow> (fill enc arr off dt v, None)
      | _ \<Rightarrow>
         (case dt of
            Base d shp \<Rightarrow>
              if s = shp \<and> length vs = prod_list shp
              then (write_at arr off (concat (map (enc d) vs)), None)
              else (arr, Some ValueError)
          | Struct fs \<Rightarrow> (arr, Some ValueError)))"
| "setitem enc arr off dt (SDict kvs) = (arr, Some TypeError)"
| "setitem enc arr off dt (STuple vs) = (arr, Some TypeError)"

text \<open>
  \<open>_emulate(arr, sample)\<close>. \<open>arr\<close> is a view of one record inside a buffer: the buffer,
  the offset of the view and its dtype. The function writes through the view, so the
  model returns the buffer as the call leaves it, also when it raises.
\<close>

fun emulate' :: "(scalar \<Rightarrow> 'v \<Rightarrow> byte list) \<Rightarrow> byte list \<Rightarrow> nat \<Rightarrow> dtype \<Rightarrow> 'v sample \<Rightarrow>
       byte list \<times> error option"
  and emulate_items :: "(scalar \<Rightarrow> 'v \<Rightarrow> byte list) \<Rightarrow> byte list \<Rightarrow> nat \<Rightarrow> dtype \<Rightarrow>
       (string \<times> 'v sample) list \<Rightarrow> byte list \<times> error option"
  and emulate_elems :: "(scalar \<Rightarrow> 'v \<Rightarrow> byte list) \<Rightarrow> byte list \<Rightarrow> nat \<Rightarrow> dtype \<Rightarrow> nat \<Rightarrow>
       'v sample list \<Rightarrow> byte list \<times> error option" where
  "emulate' enc arr off dt (SDict kvs) = emulate_items enc arr off dt kvs"
| "emulate' enc arr off dt (STuple vs) = emulate_elems enc arr off dt 0 vs"
| "emulate' enc arr off dt (SVal v) = setitem enc arr off dt (SVal v)"
| "emulate' enc arr off dt (SArr s vs) = setitem enc arr off dt (SArr s vs)"
| "emulate_items enc arr off dt [] = (arr, None)"
| "emulate_items enc arr off dt (kv # kvs) =
     (case getfield dt (fst kv) of
        Inl e \<Rightarrow> (arr, Some e)
      | Inr fld \<Rightarrow>
          (case emulate' enc arr (off + fst fld) (snd fld) (snd kv) of
             (arr', Some e) \<Rightarrow> (arr', Some e)
           | (arr', None) \<Rightarrow> emulate_items enc arr' off dt kvs))"
| "emulate_elems enc arr off dt i [] = (arr, None)"
| "emulate_elems enc arr off dt i (v # vs) =
     (case getfield dt (fname i) of
        Inl e \<Rightarrow> (arr, Some e)
      | Inr fld \<Rightarrow>
          (case emulate' enc arr (off + fst fld) (snd fld) v of
             (arr', Some e) \<Rightarrow> (arr', Some e)
           | (arr', None) \<Rightarrow> emulate_elems enc arr' off dt (Suc i) vs))"

text \<open>
  \<open>ndarray.view\<close> changes the element size along the last axis. From elements of
  \<open>a\<close> bytes, \<open>len\<close> of them on the last axis, to elements of \<open>e\<close> bytes, numpy gives
  the new length of that axis or raises \<open>ValueError\<close>.
\<close>

definition view_len :: "nat \<Rightarrow> nat \<Rightarrow> nat \<Rightarrow> error + nat" where
  "view_len a len e =
     (if e = a then Inr len
      else if e < a then
        (if e = 0 \<or> a mod e \<noteq> 0 then Inl ValueError else Inr (len * (a div e)))
      else
        (if (len * a) mod e \<noteq> 0 then Inl ValueError else Inr ((len * a) div e)))"

text \<open>The shape after a view; a zero-dimensional array keeps its element size.\<close>

definition view_shape :: "nat \<Rightarrow> nat list \<Rightarrow> nat \<Rightarrow> error + nat list" where
  "view_shape a shp e =
     (if shp = [] then (if e = a then Inr [] else Inl ValueError)
      else case view_len a (last shp) e of
             Inl err \<Rightarrow> Inl err
           | Inr n \<Rightarrow> Inr (butlast shp @ [n]))"

text \<open>
  \<open>emulate\<close>: \<open>np.zeros(1, dtype=emulated_dtype)\<close>, filled by \<open>_emulate\<close>, viewed as
  \<open>sample_dtype\<close> and flattened. An array created with a dtype \<open>(d, shp)\<close> has the
  elements of \<open>d\<close> and the shape \<open>(1,) + shp\<close>; \<open>zeros_shape\<close> gives the element size
  and the shape of the new array.
\<close>

fun zeros_shape :: "dtype \<Rightarrow> nat \<times> nat list" where
  "zeros_shape (Base d shp) = (itemsize d, 1 # shp)"
| "zeros_shape (Struct fs) = (dt_itemsize (Struct fs), [1])"

definition emulate :: "(scalar \<Rightarrow> 'v \<Rightarrow> byte list) \<Rightarrow> 'v sample \<Rightarrow> scalar \<Rightarrow> dtype \<Rightarrow>
    error + ndarray" where
  "emulate enc sample sample_dtype emulated_dtype =
     (let emulated = replicate (dt_itemsize emulated_dtype) 0
      in case emulate' enc emulated 0 emulated_dtype sample of
           (arr, Some e) \<Rightarrow> Inl e
         | (arr, None) \<Rightarrow>
             (case view_shape (fst (zeros_shape emulated_dtype))
                     (snd (zeros_shape emulated_dtype)) (itemsize sample_dtype) of
                Inl e \<Rightarrow> Inl e
              | Inr shp \<Rightarrow> Inr (Array sample_dtype [prod_list shp] arr)))"

text \<open>
  \<open>.item()\<close> on an array of \<open>m\<close> elements of dtype \<open>dt\<close>, the first at \<open>off\<close>: the one
  element as a Python object, \<open>ValueError\<close> unless the array has exactly one. The item
  of a record is the tuple of its fields' values.
\<close>

fun element :: "(scalar \<Rightarrow> byte list \<Rightarrow> 'v) \<Rightarrow> byte list \<Rightarrow> nat \<Rightarrow> dtype \<Rightarrow> 'v sample"
  and element_fields :: "(scalar \<Rightarrow> byte list \<Rightarrow> 'v) \<Rightarrow> byte list \<Rightarrow> nat \<Rightarrow> nat \<Rightarrow>
       (string \<times> dtype) list \<Rightarrow> 'v sample list" where
  "element dec arr off (Base d shp) =
     (if shp = [] then SVal (dec d (read_at arr off (itemsize d)))
      else SArr shp (map (\<lambda>j. dec d (read_at arr (off + j * itemsize d) (itemsize d)))
                      [0..<prod_list shp]))"
| "element dec arr off (Struct fs) = STuple (element_fields dec arr off 0 fs)"
| "element_fields dec arr base off [] = []"
| "element_fields dec arr base off (f # fs) =
     (let start = align_up off (dt_alignment (snd f))
      in element dec arr (base + start) (snd f)
         # element_fields dec arr base (start + dt_itemsize (snd f)) fs)"

fun item :: "(scalar \<Rightarrow> byte list \<Rightarrow> 'v) \<Rightarrow> byte list \<Rightarrow> nat \<Rightarrow> nat \<Rightarrow> dtype \<Rightarrow>
       error + 'v sample" where
  "item dec arr m off (Base d shp) =
     (if m * prod_list shp = 1 then Inr (SVal (dec d (read_at arr off (itemsize d))))
      else Inl ValueError)"
| "item dec arr m off (Struct fs) =
     (if m = 1 then Inr (element dec arr off (Struct fs)) else Inl ValueError)"

text \<open>\<open>_nativize(sample, space)\<close>, on an array of \<open>m\<close> records of dtype \<open>dt\<close>.\<close>

fun nativize' :: "(scalar \<Rightarrow> byte list \<Rightarrow> 'v) \<Rightarrow> byte list \<Rightarrow> nat \<Rightarrow> nat \<Rightarrow> dtype \<Rightarrow> space \<Rightarrow>
       error + 'v sample"
  and nativize_elems :: "(scalar \<Rightarrow> byte list \<Rightarrow> 'v) \<Rightarrow> byte list \<Rightarrow> nat \<Rightarrow> nat \<Rightarrow> dtype \<Rightarrow> nat \<Rightarrow>
       space list \<Rightarrow> error + 'v sample list"
  and nativize_items :: "(scalar \<Rightarrow> byte list \<Rightarrow> 'v) \<Rightarrow> byte list \<Rightarrow> nat \<Rightarrow> nat \<Rightarrow> dtype \<Rightarrow>
       (string \<times> space) list \<Rightarrow> error + (string \<times> 'v sample) list" where
  "nativize' dec arr m off dt (Tuple elems) =
     (case nativize_elems dec arr m off dt 0 elems of
        Inl e \<Rightarrow> Inl e | Inr vs \<Rightarrow> Inr (STuple vs))"
| "nativize' dec arr m off dt (Dict items) =
     (case nativize_items dec arr m off dt items of
        Inl e \<Rightarrow> Inl e | Inr kvs \<Rightarrow> Inr (SDict kvs))"
| "nativize' dec arr m off dt (Box lo hi shp d) = item dec arr m off dt"
| "nativize' dec arr m off dt (Discrete n) = item dec arr m off dt"
| "nativize' dec arr m off dt (MultiDiscrete nvec) = item dec arr m off dt"
| "nativize_elems dec arr m off dt i [] = Inr []"
| "nativize_elems dec arr m off dt i (elem # elems) =
     (case getfield dt (fname i) of
        Inl e \<Rightarrow> Inl e
      | Inr fld \<Rightarrow>
          (case nativize' dec arr m (off + fst fld) (snd fld) elem of
             Inl e \<Rightarrow> Inl e
           | Inr v \<Rightarrow>
               (case nativize_elems dec arr m off dt (Suc i) elems of
                  Inl e \<Rightarrow> Inl e | Inr vs \<Rightarrow> Inr (v # vs))))"
| "nativize_items dec arr m off dt [] = Inr []"
| "nativize_items dec arr m off dt (kv # items) =
     (case getfield dt (fst kv) of
        Inl e \<Rightarrow> Inl e
      | Inr fld \<Rightarrow>
          (case nativize' dec arr m (off + fst fld) (snd fld) (snd kv) of
             Inl e \<Rightarrow> Inl e
           | Inr v \<Rightarrow>
               (case nativize_items dec arr m off dt items of
                  Inl e \<Rightarrow> Inl e | Inr kvs \<Rightarrow> Inr ((fst kv, v) # kvs))))"

text \<open>
  \<open>nativize\<close>: \<open>np.array(sample).view(emulated_dtype)\<close>, then \<open>_nativize\<close>. A view
  under a dtype \<open>(d, shp)\<close> with a shape must keep the element size. The view holds as
  many records as its shape has elements.
\<close>

fun is_subarray :: "dtype \<Rightarrow> bool" where
  "is_subarray (Base d shp) = (shp \<noteq> [])"
| "is_subarray (Struct fs) = False"

fun view_records :: "ndarray \<Rightarrow> dtype \<Rightarrow> error + (nat \<times> byte list)" where
  "view_records (Array d shp bs) dt =
     (if dt_itemsize dt \<noteq> itemsize d \<and> is_subarray dt then Inl ValueError
      else case view_shape (itemsize d) shp (dt_itemsize dt) of
             Inl e \<Rightarrow> Inl e
           | Inr shp' \<Rightarrow> Inr (prod_list shp', bs))"

definition nativize :: "(scalar \<Rightarrow> byte list \<Rightarrow> 'v) \<Rightarrow> ndarray \<Rightarrow> space \<Rightarrow> dtype \<Rightarrow>
    error + 'v sample" where
  "nativize dec sample sample_space emulated_dtype =
     (case view_records sample emulated_dtype of
        Inl e \<Rightarrow> Inl e
      | Inr (m, arr) \<Rightarrow> nativize' dec arr m 0 emulated_dtype sample_space)"

text \<open>
  A little-endian two's-complement codec for integer values, to run the definitions on
  concrete samples. (A floating-point element stands for its bit pattern here.)
\<close>

fun is_signed :: "scalar \<Rightarrow> bool" where
  "is_signed Int8 = True"
| "is_signed Int16 = True"
| "is_signed Int32 = True"
| "is_signed Int64 = True"
| "is_signed d = False"

definition enc_int :: "scalar \<Rightarrow> int \<Rightarrow> byte list" where
  "enc_int d v = map (\<lambda>i. word_of_int (v div 256 ^ i)) [0..<itemsize d]"

definition dec_int :: "scalar \<Rightarrow> byte list \<Rightarrow> int" where
  "dec_int d bs =
     (let u = foldr (\<lambda>b acc. uint b + 256 * acc) bs 0
      in if is_signed d \<and> 2 ^ (8 * length bs - 1) \<le> u then u - 2 ^ (8 * length bs) else u)"

text \<open>
  A sample conforms to a space when it has the space's nesting, keys and positions, and
  every leaf value is of the leaf's shape and scalar type: a scalar for a leaf of shape
  \<open>()\<close>, an array of the leaf's shape otherwise, made of values numpy stores without
  changing them (\<open>dec d (enc d v) = v\<close>).
\<close>

fun leaf_conforms :: "(scalar \<Rightarrow> 'v \<Rightarrow> byte list) \<Rightarrow> (scalar \<Rightarrow> byte list \<Rightarrow> 'v) \<Rightarrow>
    scalar \<Rightarrow> nat list \<Rightarrow> 'v sample \<Rightarrow> bool" where
  "leaf_conforms enc dec d shp (SVal v) = (shp = [] \<and> dec d (enc d v) = v)"
| "leaf_conforms enc dec d shp (SArr s vs) =
     (shp \<noteq> [] \<and> s = shp \<and> length vs = prod_list shp
      \<and> list_all (\<lambda>v. dec d (enc d v) = v) vs)"
| "leaf_conforms enc dec d shp (SDict kvs) = False"
| "leaf_conforms enc dec d shp (STuple vs) = False"

fun conforms :: "(scalar \<Rightarrow> 'v \<Rightarrow> byte list) \<Rightarrow> (scalar \<Rightarrow> byte list \<Rightarrow> 'v) \<Rightarrow>
       space \<Rightarrow> 'v sample \<Rightarrow> bool"
  and conforms_elems :: "(scalar \<Rightarrow> 'v \<Rightarrow> byte list) \<Rightarrow> (scalar \<Rightarrow> byte list \<Rightarrow> 'v) \<Rightarrow>
       space list \<Rightarrow> 'v sample list \<Rightarrow> bool"
  and conforms_items :: "(scalar \<Rightarrow> 'v \<Rightarrow> byte list) \<Rightarrow> (scalar \<Rightarrow> byte list \<Rightarrow> 'v) \<Rightarrow>
       (string \<times> space) list \<Rightarrow> (string \<times> 'v sample) list \<Rightarrow> bool" where
  "conforms enc dec (Tuple elems) s =
     (case s of STuple vs \<Rightarrow> conforms_elems enc dec elems vs | _ \<Rightarrow> False)"
| "conforms enc dec (Dict items) s =
     (case s of SDict kvs \<Rightarrow> conforms_items enc dec items kvs | _ \<Rightarrow> False)"
| "conforms enc dec (Box lo hi shp d) s = leaf_conforms enc dec d shp s"
| "conforms enc dec (Discrete n) s = leaf_conforms enc dec Int64 [] s"
| "conforms enc dec (MultiDiscrete nvec) s = leaf_conforms enc dec Int64 [length nvec] s"
| "conforms_elems enc dec [] vs = (vs = [])"
| "conforms_elems enc dec (elem # elems) vs =
     (case vs of
        [] \<Rightarrow> False
      | v # vs' \<Rightarrow> conforms enc dec elem v \<and> conforms_elems enc dec elems vs')"
| "conforms_items enc dec [] kvs = (kvs = [])"
| "conforms_items enc dec (entry # items) kvs =
     (case kvs of
        [] \<Rightarrow> False
      | kv # kvs' \<Rightarrow>
          fst kv = fst entry \<and> conforms enc dec (snd entry) (snd kv)
          \<and> conforms_items enc dec items kvs')"

text \<open>The keys of a \<open>Dict\<close> are the keys of a Python dictionary: no two are equal.\<close>

fun distinct_keys :: "space \<Rightarrow> bool"
  and distinct_keys_elems :: "space list \<Rightarrow> bool"
  and distinct_keys_items :: "(string \<times> space) list \<Rightarrow> bool" where
  "distinct_keys (Tuple elems) = distinct_keys_elems elems"
| "distinct_keys (Dict items) = (distinct (map fst items) \<and> distinct_keys_items items)"
| "distinct_keys (Box lo hi shp d) = True"
| "distinct_keys (Discrete n) = True"
| "distinct_keys (MultiDiscrete nvec) = True"
| "distinct_keys_elems [] = True"
| "distinct_keys_elems (e # es) = (distinct_keys e \<and> distinct_keys_elems es)"
| "distinct_keys_items [] = True"
| "distinct_keys_items (kv # items) = (distinct_keys (snd kv) \<and> distinct_keys_items items)"

definition scalar_leaves :: "space \<Rightarrow> bool" where
  "scalar_leaves sp = list_all (\<lambda>l. space_shape l = []) (flatten_space sp)"

text \<open>Reading a decimal numeral back, to tell positional field names apart.\<close>

definition digit_val :: "char \<Rightarrow> nat" where
  "digit_val c = length (takeWhile (\<lambda>x. x \<noteq> c) ''0123456789'')"

definition undigits :: "string \<Rightarrow> nat" where
  "undigits cs = foldl (\<lambda>acc c. 10 * acc + digit_val c) 0 cs"

text \<open>An element of scalar type \<open>d\<close> takes \<open>itemsize d\<close> bytes.\<close>

definition well_sized :: "(scalar \<Rightarrow> 'v \<Rightarrow> byte list) \<Rightarrow> bool" where
  "well_sized enc = (\<forall>d v. length (enc d v) = itemsize d)"

text \<open>
  A call that wrote through a view succeeded and changed the buffer only between
  \<open>lo\<close> and \<open>hi\<close>.
\<close>

definition writes_within :: "byte list \<Rightarrow> byte list \<times> error option \<Rightarrow> nat \<Rightarrow> nat \<Rightarrow> bool" where
  "writes_within buf r lo hi =
     (snd r = None \<and> length (fst r) = length buf
      \<and> (\<forall>i. i < lo \<or> hi \<le> i \<longrightarrow> fst r ! i = buf ! i))"

section \<open>The adapters\<close>

text \<open>
  What the adapters exchange with their surroundings. A Python value that reaches a
  containment check or a wrapped environment is an array of scalars or a nested sample.
  The external calls an adapter makes are recorded in order: the calls on the wrapped
  environment, the containment checks \<open>space.contains(data)\<close> and the warnings.
\<close>

datatype 'v pyobj = Nd ndarray | Val "'v sample"

datatype 'v call =
  CallResetSeeded int
  | CallSeed int
  | CallReset
  | CallStep "'v sample"
  | CallResetAgents "int option"
  | CallStepAgents "(string \<times> 'v pyobj) list"
  | CallContains space "'v pyobj"
  | CallWarn

text \<open>
  numpy and gymnasium as the adapters use them: the byte image of a scalar and its
  inverse (see the codec), and the containment test of a space, which may itself raise.
\<close>

record 'v lib =
  np_enc :: "scalar \<Rightarrow> 'v \<Rightarrow> byte list"
  np_dec :: "scalar \<Rightarrow> byte list \<Rightarrow> 'v"
  contains :: "space \<Rightarrow> 'v pyobj \<Rightarrow> error + bool"

text \<open>
  \<open>check_space\<close>: any exception of \<open>space.contains\<close> and a negative answer both become
  \<open>APIUsageError\<close>; otherwise the result is \<open>True\<close>.
\<close>

definition check_space :: "'v lib \<Rightarrow> 'v call list \<Rightarrow> 'v pyobj \<Rightarrow> space \<Rightarrow>
    'v call list \<times> (error + bool)" where
  "check_space lib calls data space =
     (calls @ [CallContains space data],
      case contains lib space data of
        Inl e \<Rightarrow> Inl APIUsageError
      | Inr c \<Rightarrow> if \<not> c then Inl APIUsageError else Inr True)"

text \<open>
  A wrapped single-agent environment: what its methods do to its state \<open>'e\<close> and what
  they return or raise, and its two spaces. \<open>reset_seeded\<close> is \<open>env.reset(seed=seed)\<close>,
  \<open>reset_plain\<close> is \<open>env.reset()\<close>, \<open>seed_call\<close> is \<open>env.seed(seed)\<close>. A return value
  that does not unpack into the expected tuple counts as raising.
\<close>

record ('e, 'v, 'i) gym_env =
  reset_seeded :: "'e \<Rightarrow> int \<Rightarrow> 'e \<times> (error + 'v sample \<times> 'i)"
  reset_plain :: "'e \<Rightarrow> 'e \<times> (error + 'v sample \<times> 'i)"
  seed_call :: "'e \<Rightarrow> int \<Rightarrow> 'e \<times> (error + unit)"
  step_call :: "'e \<Rightarrow> 'v sample \<Rightarrow> 'e \<times> (error + 'v sample \<times> real \<times> bool \<times> bool \<times> 'i)"
  env_observation_space :: space
  env_action_space :: space

text \<open>The three calls of \<open>_seed_and_reset\<close> on the environment, each recorded.\<close>

definition do_reset_seeded :: "('e, 'v, 'i) gym_env \<Rightarrow> 'e \<times> 'v call list \<Rightarrow> int \<Rightarrow>
    ('e \<times> 'v call list) \<times> (error + 'v sample \<times> 'i)" where
  "do_reset_seeded ops w seed =
     (case reset_seeded ops (fst w) seed of
        (e', r) \<Rightarrow> ((e', snd w @ [CallResetSeeded seed]), r))"

definition do_seed :: "('e, 'v, 'i) gym_env \<Rightarrow> 'e \<times> 'v call list \<Rightarrow> int \<Rightarrow>
    ('e \<times> 'v call list) \<times> (error + unit)" where
  "do_seed ops w seed =
     (case seed_call ops (fst w) seed of (e', r) \<Rightarrow> ((e', snd w @ [CallSeed seed]), r))"

definition do_reset :: "('e, 'v, 'i) gym_env \<Rightarrow> 'e \<times> 'v call list \<Rightarrow>
    ('e \<times> 'v call list) \<times> (error + 'v sample \<times> 'i)" where
  "do_reset ops w =
     (case reset_plain ops (fst w) of (e', r) \<Rightarrow> ((e', snd w @ [CallReset]), r))"

text \<open>
  The last stage of \<open>_seed_and_reset\<close>: the plain reset inside the innermost handler,
  then the warning. An exception of this reset is not caught.
\<close>

definition reset_and_warn :: "('e, 'v, 'i) gym_env \<Rightarrow> 'e \<times> 'v call list \<Rightarrow>
    ('e \<times> 'v call list) \<times> (error + 'v sample \<times> 'i)" where
  "reset_and_warn ops w =
     (case do_reset ops w of
        (w', Inl e) \<Rightarrow> (w', Inl e)
      | (w', Inr r) \<Rightarrow> ((fst w', snd w' @ [CallWarn]), Inr r))"

definition seed_and_reset :: "('e, 'v, 'i) gym_env \<Rightarrow> 'e \<times> 'v call list \<Rightarrow> int option \<Rightarrow>
    ('e \<times> 'v call list) \<times> (error + 'v sample \<times> 'i)" where
  "seed_and_reset ops w seed =
     (case seed of
        None \<Rightarrow> do_reset ops w
      | Some sd \<Rightarrow>
          (case do_reset_seeded ops w sd of
             (w1, Inr r) \<Rightarrow> (w1, Inr r)
           | (w1, Inl e1) \<Rightarrow>
               (case do_seed ops w1 sd of
                  (w2, Inl e2) \<Rightarrow> reset_and_warn ops w2
                | (w2, Inr u) \<Rightarrow>
                    (case do_reset ops w2 of
                       (w3, Inr r) \<Rightarrow> (w3, Inr r)
                     | (w3, Inl e3) \<Rightarrow> reset_and_warn ops w3))))"

text \<open>
  Arrays the adapters own or share. \<open>nd_zeros\<close> is \<open>np.zeros(shape, dtype)\<close>;
  \<open>nd_getrow a i\<close> is the content of \<open>a[i]\<close> and \<open>nd_setrow\<close> puts a row back;
  \<open>nd_assign\<close> is the assignment of a value to a whole array, with the broadcasting of
  \<open>setitem\<close>. \<open>setindex\<close> is \<open>xs[i] = x\<close> on a one-dimensional array of Python values.
\<close>

definition nd_zeros :: "nat list \<Rightarrow> scalar \<Rightarrow> ndarray" where
  "nd_zeros shp d = Array d shp (replicate (prod_list shp * itemsize d) 0)"

fun nd_row_bytes :: "ndarray \<Rightarrow> nat" where
  "nd_row_bytes (Array d shp bs) = prod_list (tl shp) * itemsize d"

fun nd_getrow :: "ndarray \<Rightarrow> nat \<Rightarrow> error + ndarray" where
  "nd_getrow (Array d shp bs) i =
     (if shp = [] \<or> hd shp \<le> i then Inl IndexError
      else Inr (Array d (tl shp)
             (read_at bs (i * nd_row_bytes (Array d shp bs)) (nd_row_bytes (Array d shp bs)))))"

fun nd_bytes :: "ndarray \<Rightarrow> byte list" where
  "nd_bytes (Array d shp bs) = bs"

fun nd_setrow :: "ndarray \<Rightarrow> nat \<Rightarrow> ndarray \<Rightarrow> ndarray" where
  "nd_setrow (Array d shp bs) i row =
     Array d shp (write_at bs (i * nd_row_bytes (Array d shp bs)) (nd_bytes row))"

fun nd_assign :: "(scalar \<Rightarrow> 'v \<Rightarrow> byte list) \<Rightarrow> ndarray \<Rightarrow> 'v sample \<Rightarrow> error + ndarray" where
  "nd_assign enc (Array d shp bs) value =
     (case setitem enc bs 0 (Base d shp) value of
        (bs', None) \<Rightarrow> Inr (Array d shp bs')
      | (bs', Some e) \<Rightarrow> Inl e)"

definition setindex :: "'a list \<Rightarrow> nat \<Rightarrow> 'a \<Rightarrow> error + 'a list" where
  "setindex xs i x = (if i < length xs then Inr (xs[i := x]) else Inl IndexError)"

text \<open>
  The shared buffer an adapter may be bound to (\<open>self.mem\<close>, assigned by the driver after
  construction): the observation slots in one array, and one reward, done, truncated and
  mask value per slot.
\<close>

record mem =
  mem_obs :: ndarray
  mem_rew :: "real list"
  mem_done :: "bool list"
  mem_trunc :: "bool list"
  mem_mask :: "bool list"

text \<open>
  The state of a \<open>GymnasiumPufferEnv\<close>: its attributes, the state of the wrapped
  environment, and the calls made so far. \<open>self.obs\<close> is the adapter's own array
  (\<open>g_obs\<close>), a raw observation bound to the name (\<open>g_obs\<close> again), or, once the first
  reset has found a shared buffer, slot 0 of that buffer (\<open>g_obs_bound\<close>). \<open>g_has_view\<close>
  says that \<open>self._obs\<close> exists.
\<close>

record ('e, 'v) gym_state =
  g_env :: 'e
  g_calls :: "'v call list"
  g_initialized :: bool
  g_done :: bool
  g_is_observation_checked :: bool
  g_is_action_checked :: bool
  g_observation_space :: space
  g_obs_dtype :: dtype
  g_action_space :: space
  g_atn_dtype :: dtype
  g_is_obs_emulated :: bool
  g_is_atn_emulated :: bool
  g_mem :: "mem option"
  g_obs :: "'v pyobj"
  g_obs_bound :: bool
  g_has_view :: bool

fun is_box :: "space \<Rightarrow> bool" where
  "is_box (Box lo hi shp d) = True"
| "is_box sp = False"

text \<open>
  \<open>GymnasiumPufferEnv.__init__\<close>, for an environment instance. A view is emulated when
  it is not the very object the environment declares: \<open>emulate_observation_space\<close>
  returns its argument only for a \<open>Box\<close>, \<open>emulate_action_space\<close> only for a
  \<open>Discrete\<close>. The observation view is always a \<open>Box\<close>.
\<close>

definition GymnasiumPufferEnv :: "('e, 'v, 'i) gym_env \<Rightarrow> 'e \<Rightarrow> error + ('e, 'v) gym_state" where
  "GymnasiumPufferEnv ops e =
     (case emulate_observation_space (env_observation_space ops) of
        Inl err \<Rightarrow> Inl err
      | Inr (ospace, odt) \<Rightarrow>
          (case emulate_action_space (env_action_space ops) of
             Inl err \<Rightarrow> Inl err
           | Inr (aspace, adt) \<Rightarrow>
               Inr \<lparr> g_env = e, g_calls = [], g_initialized = False, g_done = True,
                     g_is_observation_checked = False, g_is_action_checked = False,
                     g_observation_space = ospace, g_obs_dtype = odt,
                     g_action_space = aspace, g_atn_dtype = adt,
                     g_is_obs_emulated = (\<not> is_box (env_observation_space ops)),
                     g_is_atn_emulated = (\<not> is_discrete (env_action_space ops)),
                     g_mem = None,
                     g_obs = Nd (nd_zeros (space_shape ospace) (space_dtype ospace)),
                     g_obs_bound = False, g_has_view = False \<rparr>))"

text \<open>
  Reading and writing \<open>self.obs\<close> as an array. Reading a raw observation bound to the name
  as an array of the adapter's is not modelled: the adapter does so only after the shared
  buffer was bound later than the first reset, and the model raises \<open>TypeError\<close> there.
\<close>

definition g_obs_array :: "('e, 'v) gym_state \<Rightarrow> error + ndarray" where
  "g_obs_array s =
     (if g_obs_bound s then
        (case g_mem s of
           None \<Rightarrow> Inl AttributeError
         | Some m \<Rightarrow> nd_getrow (mem_obs m) 0)
      else (case g_obs s of Nd a \<Rightarrow> Inr a | Val v \<Rightarrow> Inl TypeError))"

definition g_store_obs :: "('e, 'v) gym_state \<Rightarrow> ndarray \<Rightarrow> ('e, 'v) gym_state" where
  "g_store_obs s a =
     (if g_obs_bound s then
        (case g_mem s of
           None \<Rightarrow> s
         | Some m \<Rightarrow> s\<lparr>g_mem := Some (m\<lparr>mem_obs := nd_setrow (mem_obs m) 0 a\<rparr>)\<rparr>)
      else s\<lparr>g_obs := Nd a\<rparr>)"

definition g_the_obs :: "('e, 'v) gym_state \<Rightarrow> 'v pyobj" where
  "g_the_obs s = (case g_obs_array s of Inr a \<Rightarrow> Nd a | Inl e \<Rightarrow> g_obs s)"

text \<open>
  \<open>GymnasiumPufferEnv._emulate\<close>. The emulated branch writes through \<open>self._obs\<close>, the
  view of the observation array as one record of \<open>obs_dtype\<close> (the array has the size of
  the observation view, and so has a slot of the shared buffer).
\<close>

definition Gymnasium_emulate :: "'v lib \<Rightarrow> ('e, 'v) gym_state \<Rightarrow> 'v sample \<Rightarrow>
    ('e, 'v) gym_state \<times> error option" where
  "Gymnasium_emulate lib s ob =
     (if g_is_obs_emulated s then
        (if \<not> g_has_view s then (s, Some AttributeError)
         else case g_obs_array s of
                Inl e \<Rightarrow> (s, Some e)
              | Inr (Array d shp bs) \<Rightarrow>
                  (case emulate' (np_enc lib) bs 0 (g_obs_dtype s) ob of
                     (bs', err) \<Rightarrow> (g_store_obs s (Array d shp bs'), err)))
      else if g_mem s \<noteq> None then
        (case g_obs_array s of
           Inl e \<Rightarrow> (s, Some e)
         | Inr (Array d shp bs) \<Rightarrow>
             if shp = [] then (s, Some IndexError)
             else (case nd_assign (np_enc lib) (Array d shp bs) ob of
                     Inl e \<Rightarrow> (s, Some e)
                   | Inr a \<Rightarrow> (g_store_obs s a, None)))
      else (s\<lparr>g_obs := Val ob, g_obs_bound := False\<rparr>, None))"

text \<open>
  The part of \<open>reset\<close> that runs while the adapter is not initialized: binding
  \<open>self.obs\<close> to slot 0 of the shared buffer and taking the record view \<open>self._obs\<close>.
\<close>

definition Gymnasium_setup :: "('e, 'v) gym_state \<Rightarrow> ('e, 'v) gym_state \<times> error option" where
  "Gymnasium_setup s =
     (case (case g_mem s of
              None \<Rightarrow> Inr s
            | Some m \<Rightarrow>
                (case nd_getrow (mem_obs m) 0 of
                   Inl e \<Rightarrow> Inl e
                 | Inr row \<Rightarrow> Inr (s\<lparr>g_obs_bound := True\<rparr>))) of
        Inl e \<Rightarrow> (s, Some e)
      | Inr s1 \<Rightarrow>
          if g_is_obs_emulated s1 then
            (case g_obs_array s1 of
               Inl e \<Rightarrow> (s1, Some e)
             | Inr a \<Rightarrow>
                 (case view_records a (g_obs_dtype s1) of
                    Inl e \<Rightarrow> (s1, Some e)
                  | Inr v \<Rightarrow> (s1\<lparr>g_has_view := True\<rparr>, None)))
          else (s1, None))"

text \<open>\<open>GymnasiumPufferEnv.reset\<close>: the state it leaves, and what it returns or raises.\<close>

definition Gymnasium_reset :: "'v lib \<Rightarrow> ('e, 'v, 'i) gym_env \<Rightarrow> ('e, 'v) gym_state \<Rightarrow>
    int option \<Rightarrow> ('e, 'v) gym_state \<times> (error + 'v pyobj \<times> 'i)" where
  "Gymnasium_reset lib ops s seed =
     (case (if \<not> g_initialized s then Gymnasium_setup s else (s, None)) of
        (s1, Some e) \<Rightarrow> (s1, Inl e)
      | (s1, None) \<Rightarrow>
          (let s2 = s1\<lparr>g_initialized := True, g_done := False\<rparr>
           in case seed_and_reset ops (g_env s2, g_calls s2) seed of
                (w, Inl e) \<Rightarrow> (s2\<lparr>g_env := fst w, g_calls := snd w\<rparr>, Inl e)
              | (w, Inr (ob, info)) \<Rightarrow>
                  (case Gymnasium_emulate lib (s2\<lparr>g_env := fst w, g_calls := snd w\<rparr>) ob of
                     (s3, Some e) \<Rightarrow> (s3, Inl e)
                   | (s3, None) \<Rightarrow>
                       if \<not> g_is_observation_checked s3 then
                         (case check_space lib (g_calls s3) (g_the_obs s3)
                                 (g_observation_space s3) of
                            (calls, Inl e) \<Rightarrow> (s3\<lparr>g_calls := calls\<rparr>, Inl e)
                          | (calls, Inr b) \<Rightarrow>
                              (s3\<lparr>g_calls := calls, g_is_observation_checked := b\<rparr>,
                               Inr (g_the_obs s3, info)))
                       else (s3, Inr (g_the_obs s3, info)))))"

text \<open>
  The writes of \<open>step\<close> into slot 0 of the shared buffer, one after the other.
\<close>

definition mem_record :: "mem \<Rightarrow> nat \<Rightarrow> real \<Rightarrow> bool \<Rightarrow> bool \<Rightarrow> mem \<times> error option" where
  "mem_record m i reward dn truncated =
     (case setindex (mem_rew m) i reward of
        Inl e \<Rightarrow> (m, Some e)
      | Inr rew \<Rightarrow>
          (case setindex (mem_done m) i dn of
             Inl e \<Rightarrow> (m\<lparr>mem_rew := rew\<rparr>, Some e)
           | Inr dns \<Rightarrow>
               (case setindex (mem_trunc m) i truncated of
                  Inl e \<Rightarrow> (m\<lparr>mem_rew := rew, mem_done := dns\<rparr>, Some e)
                | Inr trs \<Rightarrow>
                    (case setindex (mem_mask m) i True of
                       Inl e \<Rightarrow> (m\<lparr>mem_rew := rew, mem_done := dns, mem_trunc := trs\<rparr>, Some e)
                     | Inr msk \<Rightarrow>
                         (m\<lparr>mem_rew := rew, mem_done := dns, mem_trunc := trs,
                             mem_mask := msk\<rparr>, None)))))"

text \<open>
  \<open>GymnasiumPufferEnv.step\<close>. The action comes in as an array; \<open>nativize\<close> unpacks it
  against the action space of the wrapped environment, and the first unpacked action is
  checked against \<open>self.action_space\<close>, the adapter's own.
\<close>

definition Gymnasium_step :: "'v lib \<Rightarrow> ('e, 'v, 'i) gym_env \<Rightarrow> ('e, 'v) gym_state \<Rightarrow>
    ndarray \<Rightarrow> ('e, 'v) gym_state \<times> (error + 'v pyobj \<times> real \<times> bool \<times> bool \<times> 'i)" where
  "Gymnasium_step lib ops s action =
     (if \<not> g_initialized s then (s, Inl APIUsageError)
      else if g_done s then (s, Inl APIUsageError)
      else case nativize (np_dec lib) action (env_action_space ops) (g_atn_dtype s) of
        Inl e \<Rightarrow> (s, Inl e)
      | Inr act \<Rightarrow>
          (case (if \<not> g_is_action_checked s then
                   (case check_space lib (g_calls s) (Val act) (g_action_space s) of
                      (calls, Inl e) \<Rightarrow> (s\<lparr>g_calls := calls\<rparr>, Some e)
                    | (calls, Inr b) \<Rightarrow>
                        (s\<lparr>g_calls := calls, g_is_action_checked := b\<rparr>, None))
                 else (s, None)) of
             (s1, Some e) \<Rightarrow> (s1, Inl e)
           | (s1, None) \<Rightarrow>
               (case step_call ops (g_env s1) act of
                  (e', Inl e) \<Rightarrow> (s1\<lparr>g_env := e', g_calls := g_calls s1 @ [CallStep act]\<rparr>, Inl e)
                | (e', Inr (ob, reward, dn, truncated, info)) \<Rightarrow>
                    (case Gymnasium_emulate lib
                            (s1\<lparr>g_env := e', g_calls := g_calls s1 @ [CallStep act]\<rparr>) ob of
                       (s2, Some e) \<Rightarrow> (s2, Inl e)
                     | (s2, None) \<Rightarrow>
                         (case (case g_mem s2 of
                                  None \<Rightarrow> (s2, None)
                                | Some m \<Rightarrow>
                                    (case mem_record m 0 reward dn truncated of
                                       (m', err) \<Rightarrow> (s2\<lparr>g_mem := Some m'\<rparr>, err))) of
                            (s3, Some e) \<Rightarrow> (s3, Inl e)
                          | (s3, None) \<Rightarrow>
                              (s3\<lparr>g_done := dn\<rparr>,
                               Inr (g_the_obs s3, reward, dn, truncated, info)))))))"

text \<open>
  Python dictionaries keep insertion order: \<open>dict_set\<close> replaces the value of a key that
  is present and appends a new key. \<open>map_of\<close> looks a key up.
\<close>

fun dict_set :: "('k \<times> 'a) list \<Rightarrow> 'k \<Rightarrow> 'a \<Rightarrow> ('k \<times> 'a) list" where
  "dict_set [] k x = [(k, x)]"
| "dict_set (kv # kvs) k x = (if fst kv = k then (k, x) # kvs else kv # dict_set kvs k x)"

definition dict_from_keys :: "'k list \<Rightarrow> 'a \<Rightarrow> ('k \<times> 'a) list" where
  "dict_from_keys ks x = foldl (\<lambda>d k. dict_set d k x) [] ks"

text \<open>\<open>pad_agent_data\<close>.\<close>

definition pad_agent_data :: "(string \<times> 'a) list \<Rightarrow> string list \<Rightarrow> 'a \<Rightarrow> (string \<times> 'a) list" where
  "pad_agent_data data agents pad_value =
     foldl (\<lambda>d agent. dict_set d agent
              (case map_of data agent of Some x \<Rightarrow> x | None \<Rightarrow> pad_value)) [] agents"

text \<open>
  A wrapped multi-agent environment. Its results are dictionaries keyed by agent;
  \<open>pz_agents\<close> and \<open>pz_possible_agents\<close> are the attributes \<open>env.agents\<close> and
  \<open>env.possible_agents\<close>, read from the environment each time the adapter uses them.
\<close>

record ('e, 'v, 'i) pz_env =
  pz_reset_call :: "'e \<Rightarrow> int option \<Rightarrow> 'e \<times> (error + (string \<times> 'v sample) list \<times> 'i)"
  pz_step_call :: "'e \<Rightarrow> (string \<times> 'v pyobj) list \<Rightarrow>
     'e \<times> (error + (string \<times> 'v sample) list \<times> (string \<times> real) list
                \<times> (string \<times> bool) list \<times> (string \<times> bool) list \<times> 'i)"
  pz_agents :: "'e \<Rightarrow> string list"
  pz_possible_agents :: "'e \<Rightarrow> string list"
  pz_observation_space :: "string \<Rightarrow> space"
  pz_action_space :: "string \<Rightarrow> space"

text \<open>
  An entry of \<open>self.dict_obs\<close>: row \<open>i\<close> of the observation array seen through a view
  (\<open>Slot i\<close>), a scalar copied out of a one-dimensional array (\<open>Copied\<close>), or a raw
  observation stored under the agent (\<open>Raw\<close>).
\<close>

datatype 'v entry = Slot nat | Copied ndarray | Raw "'v sample"

text \<open>
  The state of a \<open>PettingZooPufferEnv\<close>. \<open>self.obs\<close> is the adapter's own array
  (\<open>p_obs\<close>) until the first reset finds a shared buffer and binds the name to its
  observation array (\<open>p_obs_bound\<close>). \<open>p_view\<close> is \<open>self._obs\<close>: the number of records in
  each of its rows. \<open>self.dict_obs\<close> and \<open>self.mask\<close> do not exist before the first
  reset.
\<close>

record ('e, 'v) pz_state =
  p_env :: 'e
  p_calls :: "'v call list"
  p_initialized :: bool
  p_all_done :: bool
  p_is_observation_checked :: bool
  p_is_action_checked :: bool
  p_single_observation_space :: space
  p_obs_dtype :: dtype
  p_single_action_space :: space
  p_atn_dtype :: dtype
  p_is_obs_emulated :: bool
  p_is_atn_emulated :: bool
  p_num_agents :: nat
  p_mem :: "mem option"
  p_obs :: ndarray
  p_obs_bound :: bool
  p_view :: "nat option"
  p_dict_obs :: "(string \<times> 'v entry) list option"
  p_mask :: "(string \<times> bool) list option"

text \<open>\<open>PettingZooPufferEnv.__init__\<close>, for an environment instance.\<close>

definition PettingZooPufferEnv :: "('e, 'v, 'i) pz_env \<Rightarrow> 'e \<Rightarrow> error + ('e, 'v) pz_state" where
  "PettingZooPufferEnv ops e =
     (case pz_possible_agents ops e of
        [] \<Rightarrow> Inl IndexError
      | single_agent # others \<Rightarrow>
          (case emulate_observation_space (pz_observation_space ops single_agent) of
             Inl err \<Rightarrow> Inl err
           | Inr (ospace, odt) \<Rightarrow>
               (case emulate_action_space (pz_action_space ops single_agent) of
                  Inl err \<Rightarrow> Inl err
                | Inr (aspace, adt) \<Rightarrow>
                    Inr \<lparr> p_env = e, p_calls = [], p_initialized = False, p_all_done = True,
                          p_is_observation_checked = False, p_is_action_checked = False,
                          p_single_observation_space = ospace, p_obs_dtype = odt,
                          p_single_action_space = aspace, p_atn_dtype = adt,
                          p_is_obs_emulated =
                            (\<not> is_box (pz_observation_space ops single_agent)),
                          p_is_atn_emulated =
                            (\<not> is_discrete (pz_action_space ops single_agent)),
                          p_num_agents = length (pz_possible_agents ops e),
                          p_mem = None,
                          p_obs = nd_zeros (space_shape ospace) (space_dtype ospace),
                          p_obs_bound = False, p_view = None,
                          p_dict_obs = None, p_mask = None \<rparr>)))"

text \<open>The property \<open>done\<close>.\<close>

definition PettingZoo_done :: "('e, 'v, 'i) pz_env \<Rightarrow> ('e, 'v) pz_state \<Rightarrow> bool" where
  "PettingZoo_done ops s = (length (pz_agents ops (p_env s)) = 0 \<or> p_all_done s)"

definition p_obs_array :: "('e, 'v) pz_state \<Rightarrow> error + ndarray" where
  "p_obs_array s =
     (if p_obs_bound s then
        (case p_mem s of None \<Rightarrow> Inl AttributeError | Some m \<Rightarrow> Inr (mem_obs m))
      else Inr (p_obs s))"

definition p_store_obs :: "('e, 'v) pz_state \<Rightarrow> ndarray \<Rightarrow> ('e, 'v) pz_state" where
  "p_store_obs s a =
     (if p_obs_bound s then
        (case p_mem s of
           None \<Rightarrow> s
         | Some m \<Rightarrow> s\<lparr>p_mem := Some (m\<lparr>mem_obs := a\<rparr>)\<rparr>)
      else s\<lparr>p_obs := a\<rparr>)"

text \<open>
  \<open>self.obs[i] = value\<close>: the assignment of a value to row \<open>i\<close> of the observation
  array.
\<close>

definition p_assign_row :: "'v lib \<Rightarrow> ('e, 'v) pz_state \<Rightarrow> nat \<Rightarrow> 'v sample \<Rightarrow>
    ('e, 'v) pz_state \<times> error option" where
  "p_assign_row lib s i value =
     (case p_obs_array s of
        Inl e \<Rightarrow> (s, Some e)
      | Inr a \<Rightarrow>
          (case nd_getrow a i of
             Inl e \<Rightarrow> (s, Some e)
           | Inr row \<Rightarrow>
               (case nd_assign (np_enc lib) row value of
                  Inl e \<Rightarrow> (s, Some e)
                | Inr row' \<Rightarrow> (p_store_obs s (nd_setrow a i row'), None))))"

text \<open>
  \<open>PettingZooPufferEnv._emulate\<close>. \<open>self._obs[i]\<close> is row \<open>i\<close> of the record view; the
  observation is written into the record the row starts with (a row is one record when
  the array has one slot of the size of the observation view per agent).
\<close>

definition PettingZoo_emulate :: "'v lib \<Rightarrow> ('e, 'v) pz_state \<Rightarrow> 'v sample \<Rightarrow> nat \<Rightarrow> string \<Rightarrow>
    ('e, 'v) pz_state \<times> error option" where
  "PettingZoo_emulate lib s ob i agent =
     (if p_is_obs_emulated s then
        (case p_view s of
           None \<Rightarrow> (s, Some AttributeError)
         | Some per \<Rightarrow>
             if p_num_agents s \<le> i then (s, Some IndexError)
             else case p_obs_array s of
                    Inl e \<Rightarrow> (s, Some e)
                  | Inr (Array d shp bs) \<Rightarrow>
                      (case emulate' (np_enc lib) bs
                              (i * per * dt_itemsize (p_obs_dtype s)) (p_obs_dtype s) ob of
                         (bs', err) \<Rightarrow> (p_store_obs s (Array d shp bs'), err)))
      else if p_mem s \<noteq> None then p_assign_row lib s i ob
      else (case p_dict_obs s of
              None \<Rightarrow> (s, Some AttributeError)
            | Some dobs \<Rightarrow> (s\<lparr>p_dict_obs := Some (dict_set dobs agent (Raw ob))\<rparr>, None)))"

text \<open>
  The comprehension \<open>{agent: self.obs[i] for i, agent in enumerate(self.possible_agents)}\<close>.
  Indexing a one-dimensional array gives a scalar, a copy; otherwise a view of the row.
\<close>

fun make_dict_obs :: "ndarray \<Rightarrow> (string \<times> 'v entry) list \<Rightarrow> nat \<Rightarrow> string list \<Rightarrow>
    error + (string \<times> 'v entry) list" where
  "make_dict_obs a acc i [] = Inr acc"
| "make_dict_obs a acc i (agent # agents) =
     (case nd_getrow a i of
        Inl e \<Rightarrow> Inl e
      | Inr (Array d shp bs) \<Rightarrow>
          make_dict_obs a
            (dict_set acc agent (if shp = [] then Copied (Array d shp bs) else Slot i))
            (Suc i) agents)"

text \<open>The part of \<open>reset\<close> that runs while the adapter is not initialized.\<close>

definition PettingZoo_setup :: "('e, 'v, 'i) pz_env \<Rightarrow> ('e, 'v) pz_state \<Rightarrow>
    ('e, 'v) pz_state \<times> error option" where
  "PettingZoo_setup ops s =
     (let s1 = (if p_mem s \<noteq> None then s\<lparr>p_obs_bound := True\<rparr> else s)
      in case (if p_is_obs_emulated s1 then
                 (case p_obs_array s1 of
                    Inl e \<Rightarrow> (s1, Some e)
                  | Inr a \<Rightarrow>
                      (case view_records a (p_obs_dtype s1) of
                         Inl e \<Rightarrow> (s1, Some e)
                       | Inr v \<Rightarrow>
                           if p_num_agents s1 = 0 \<or> fst v mod p_num_agents s1 \<noteq> 0
                           then (s1, Some ValueError)
                           else (s1\<lparr>p_view := Some (fst v div p_num_agents s1)\<rparr>, None)))
               else (s1, None)) of
           (s2, Some e) \<Rightarrow> (s2, Some e)
         | (s2, None) \<Rightarrow>
             (case p_obs_array s2 of
                Inl e \<Rightarrow> (s2, Some e)
              | Inr a \<Rightarrow>
                  (case make_dict_obs a [] 0 (pz_possible_agents ops (p_env s2)) of
                     Inl e \<Rightarrow> (s2, Some e)
                   | Inr dobs \<Rightarrow> (s2\<lparr>p_dict_obs := Some dobs\<rparr>, None))))"

text \<open>
  The loop of \<open>reset\<close> over the possible agents. For an agent the wrapped environment
  gave no observation for, the statement is \<open>self.observation[i] = 0\<close>; the class has no
  attribute \<open>observation\<close>, so reading it raises \<open>AttributeError\<close>.
\<close>

fun reset_loop :: "'v lib \<Rightarrow> (string \<times> 'v sample) list \<Rightarrow> ('e, 'v) pz_state \<Rightarrow> nat \<Rightarrow>
    string list \<Rightarrow> ('e, 'v) pz_state \<times> error option" where
  "reset_loop lib obs s i [] = (s, None)"
| "reset_loop lib obs s i (agent # agents) =
     (case map_of obs agent of
        None \<Rightarrow> (s, Some AttributeError)
      | Some ob \<Rightarrow>
          (case PettingZoo_emulate lib s ob i agent of
             (s1, Some e) \<Rightarrow> (s1, Some e)
           | (s1, None) \<Rightarrow>
               (case p_mask s1 of
                  None \<Rightarrow> (s1, Some AttributeError)
                | Some msk \<Rightarrow>
                    reset_loop lib obs (s1\<lparr>p_mask := Some (dict_set msk agent True)\<rparr>)
                      (Suc i) agents)))"

text \<open>What a caller reads in \<open>self.dict_obs\<close>: each entry with its present content.\<close>

definition read_entry :: "('e, 'v) pz_state \<Rightarrow> 'v entry \<Rightarrow> error + 'v pyobj" where
  "read_entry s en =
     (case en of
        Raw v \<Rightarrow> Inr (Val v)
      | Copied a \<Rightarrow> Inr (Nd a)
      | Slot i \<Rightarrow>
          (case p_obs_array s of
             Inl e \<Rightarrow> Inl e
           | Inr a \<Rightarrow> (case nd_getrow a i of Inl e \<Rightarrow> Inl e | Inr row \<Rightarrow> Inr (Nd row))))"

definition read_dict_obs :: "('e, 'v) pz_state \<Rightarrow> (string \<times> 'v pyobj) list" where
  "read_dict_obs s =
     (case p_dict_obs s of
        None \<Rightarrow> []
      | Some dobs \<Rightarrow>
          concat (map (\<lambda>kv. case read_entry s (snd kv) of
                               Inl e \<Rightarrow> [] | Inr x \<Rightarrow> [(fst kv, x)]) dobs))"

text \<open>The one-time check of \<open>reset\<close>, on \<open>self.dict_obs[self.possible_agents[0]]\<close>.\<close>

definition reset_check :: "'v lib \<Rightarrow> ('e, 'v, 'i) pz_env \<Rightarrow> ('e, 'v) pz_state \<Rightarrow>
    ('e, 'v) pz_state \<times> error option" where
  "reset_check lib ops s =
     (if p_is_observation_checked s then (s, None)
      else case pz_possible_agents ops (p_env s) of
             [] \<Rightarrow> (s, Some IndexError)
           | agent # agents \<Rightarrow>
               (case p_dict_obs s of
                  None \<Rightarrow> (s, Some AttributeError)
                | Some dobs \<Rightarrow>
                    (case map_of dobs agent of
                       None \<Rightarrow> (s, Some KeyError)
                     | Some en \<Rightarrow>
                         (case read_entry s en of
                            Inl e \<Rightarrow> (s, Some e)
                          | Inr data \<Rightarrow>
                              (case check_space lib (p_calls s) data
                                      (p_single_observation_space s) of
                                 (calls, Inl e) \<Rightarrow> (s\<lparr>p_calls := calls\<rparr>, Some e)
                               | (calls, Inr b) \<Rightarrow>
                                   (s\<lparr>p_calls := calls, p_is_observation_checked := b\<rparr>,
                                    None))))))"

text \<open>\<open>PettingZooPufferEnv.reset\<close>.\<close>

definition PettingZoo_reset :: "'v lib \<Rightarrow> ('e, 'v, 'i) pz_env \<Rightarrow> ('e, 'v) pz_state \<Rightarrow>
    int option \<Rightarrow> ('e, 'v) pz_state \<times> (error + (string \<times> 'v pyobj) list \<times> 'i)" where
  "PettingZoo_reset lib ops s seed =
     (case (if \<not> p_initialized s then PettingZoo_setup ops s else (s, None)) of
        (s1, Some e) \<Rightarrow> (s1, Inl e)
      | (s1, None) \<Rightarrow>
          (let s2 = s1\<lparr>p_initialized := True, p_all_done := False,
                       p_mask := Some (dict_from_keys (pz_possible_agents ops (p_env s1)) False)\<rparr>
           in case pz_reset_call ops (p_env s2) seed of
                (e', Inl e) \<Rightarrow>
                  (s2\<lparr>p_env := e', p_calls := p_calls s2 @ [CallResetAgents seed]\<rparr>, Inl e)
              | (e', Inr (obs, info)) \<Rightarrow>
                  (case reset_loop lib obs
                          (s2\<lparr>p_env := e', p_calls := p_calls s2 @ [CallResetAgents seed]\<rparr>)
                          0 (pz_possible_agents ops e') of
                     (s3, Some e) \<Rightarrow> (s3, Inl e)
                   | (s3, None) \<Rightarrow>
                       (case reset_check lib ops s3 of
                          (s4, Some e) \<Rightarrow> (s4, Inl e)
                        | (s4, None) \<Rightarrow> (s4, Inr (read_dict_obs s4, info))))))"

text \<open>
  The actions \<open>step\<close> is given: one array with a row per possible agent, or a dictionary
  from agents to arrays.
\<close>

datatype pz_actions = ActArray ndarray | ActDict "(string \<times> ndarray) list"

fun actions_from_array :: "ndarray \<Rightarrow> (string \<times> ndarray) list \<Rightarrow> nat \<Rightarrow> string list \<Rightarrow>
    error + (string \<times> ndarray) list" where
  "actions_from_array a acc i [] = Inr acc"
| "actions_from_array a acc i (agent # agents) =
     (case nd_getrow a i of
        Inl e \<Rightarrow> Inl e
      | Inr row \<Rightarrow> actions_from_array a (dict_set acc agent row) (Suc i) agents)"

text \<open>
  The loop of \<open>step\<close> over the given actions. An emulated action is unpacked against
  \<open>self.single_action_space\<close>, the adapter's own flat action space.
\<close>

fun unpack_actions :: "'v lib \<Rightarrow> ('e, 'v, 'i) pz_env \<Rightarrow> ('e, 'v) pz_state \<Rightarrow>
    (string \<times> 'v pyobj) list \<Rightarrow> (string \<times> ndarray) list \<Rightarrow> error + (string \<times> 'v pyobj) list" where
  "unpack_actions lib ops s unpacked [] = Inr unpacked"
| "unpack_actions lib ops s unpacked (kv # actions) =
     (if fst kv \<notin> set (pz_possible_agents ops (p_env s)) then Inl InvalidAgentError
      else if fst kv \<notin> set (pz_agents ops (p_env s)) then
        unpack_actions lib ops s unpacked actions
      else if p_is_atn_emulated s then
        (case nativize (np_dec lib) (snd kv) (p_single_action_space s) (p_atn_dtype s) of
           Inl e \<Rightarrow> Inl e
         | Inr atn \<Rightarrow> unpack_actions lib ops s (dict_set unpacked (fst kv) (Val atn)) actions)
      else unpack_actions lib ops s (dict_set unpacked (fst kv) (Nd (snd kv))) actions)"

text \<open>The writes of the multi-agent \<open>step\<close> into slot \<open>i\<close> of the shared buffer.\<close>

definition mem_record_agent :: "mem \<Rightarrow> nat \<Rightarrow> string \<Rightarrow> (string \<times> real) list \<Rightarrow>
    (string \<times> bool) list \<Rightarrow> (string \<times> bool) list \<Rightarrow> mem \<times> error option" where
  "mem_record_agent m i agent rewards dones truncateds =
     (case map_of rewards agent of
        None \<Rightarrow> (m, Some KeyError)
      | Some r \<Rightarrow>
     (case setindex (mem_rew m) i r of
        Inl e \<Rightarrow> (m, Some e)
      | Inr rew \<Rightarrow>
     (case map_of dones agent of
        None \<Rightarrow> (m\<lparr>mem_rew := rew\<rparr>, Some KeyError)
      | Some d \<Rightarrow>
     (case setindex (mem_done m) i d of
        Inl e \<Rightarrow> (m\<lparr>mem_rew := rew\<rparr>, Some e)
      | Inr dns \<Rightarrow>
     (case map_of truncateds agent of
        None \<Rightarrow> (m\<lparr>mem_rew := rew, mem_done := dns\<rparr>, Some KeyError)
      | Some t \<Rightarrow>
     (case setindex (mem_trunc m) i t of
        Inl e \<Rightarrow> (m\<lparr>mem_rew := rew, mem_done := dns\<rparr>, Some e)
      | Inr trs \<Rightarrow>
     (case setindex (mem_mask m) i True of
        Inl e \<Rightarrow> (m\<lparr>mem_rew := rew, mem_done := dns, mem_trunc := trs\<rparr>, Some e)
      | Inr msk \<Rightarrow>
          (m\<lparr>mem_rew := rew, mem_done := dns, mem_trunc := trs, mem_mask := msk\<rparr>,
           None))))))))"

text \<open>
  The loop of \<open>step\<close> over the possible agents, after the wrapped environment has
  stepped. Here the slot of an absent agent is filled with zeros: \<open>self.obs[i] = 0\<close>.
\<close>

fun step_loop :: "'v::zero lib \<Rightarrow> (string \<times> 'v sample) list \<Rightarrow> (string \<times> real) list \<Rightarrow>
    (string \<times> bool) list \<Rightarrow> (string \<times> bool) list \<Rightarrow> ('e, 'v) pz_state \<Rightarrow> nat \<Rightarrow>
    string list \<Rightarrow> ('e, 'v) pz_state \<times> error option" where
  "step_loop lib obs rewards dones truncateds s i [] = (s, None)"
| "step_loop lib obs rewards dones truncateds s i (agent # agents) =
     (case map_of obs agent of
        None \<Rightarrow>
          (case p_assign_row lib s i (SVal 0) of
             (s1, Some e) \<Rightarrow> (s1, Some e)
           | (s1, None) \<Rightarrow> step_loop lib obs rewards dones truncateds s1 (Suc i) agents)
      | Some ob \<Rightarrow>
          (case p_mask s of
             None \<Rightarrow> (s, Some AttributeError)
           | Some msk \<Rightarrow>
               (case PettingZoo_emulate lib (s\<lparr>p_mask := Some (dict_set msk agent True)\<rparr>)
                       ob i agent of
                  (s1, Some e) \<Rightarrow> (s1, Some e)
                | (s1, None) \<Rightarrow>
                    (case p_mem s1 of
                       None \<Rightarrow> step_loop lib obs rewards dones truncateds s1 (Suc i) agents
                     | Some m \<Rightarrow>
                         (case mem_record_agent m i agent rewards dones truncateds of
                            (m', Some e) \<Rightarrow> (s1\<lparr>p_mem := Some m'\<rparr>, Some e)
                          | (m', None) \<Rightarrow>
                              step_loop lib obs rewards dones truncateds
                                (s1\<lparr>p_mem := Some m'\<rparr>) (Suc i) agents)))))"

text \<open>The one-time check of \<open>step\<close>, on \<open>next(iter(actions.values()))\<close>.\<close>

definition step_check :: "'v lib \<Rightarrow> ('e, 'v) pz_state \<Rightarrow> (string \<times> ndarray) list \<Rightarrow>
    ('e, 'v) pz_state \<times> error option" where
  "step_check lib s actions =
     (if p_is_action_checked s then (s, None)
      else case actions of
             [] \<Rightarrow> (s, Some StopIteration)
           | kv # kvs \<Rightarrow>
               (case check_space lib (p_calls s) (Nd (snd kv)) (p_single_action_space s) of
                  (calls, Inl e) \<Rightarrow> (s\<lparr>p_calls := calls\<rparr>, Some e)
                | (calls, Inr b) \<Rightarrow>
                    (s\<lparr>p_calls := calls, p_is_action_checked := b\<rparr>, None)))"

text \<open>
  What \<open>step\<close> does once the wrapped environment has answered: the mask, the loop over
  the possible agents, \<open>all_done\<close>, and the padding of the three results.
\<close>

definition step_finish :: "'v::zero lib \<Rightarrow> ('e, 'v, 'i) pz_env \<Rightarrow> ('e, 'v) pz_state \<Rightarrow>
    (string \<times> 'v sample) list \<times> (string \<times> real) list \<times> (string \<times> bool) list
      \<times> (string \<times> bool) list \<times> 'i \<Rightarrow>
    ('e, 'v) pz_state \<times>
    (error + (string \<times> 'v pyobj) list \<times> (string \<times> real) list \<times> (string \<times> bool) list
             \<times> (string \<times> bool) list \<times> 'i)" where
  "step_finish lib ops s answer =
     (case answer of (obs, rewards, dones, truncateds, infos) \<Rightarrow>
        (let agents = pz_possible_agents ops (p_env s)
         in case step_loop lib obs rewards dones truncateds
                   (s\<lparr>p_mask := Some (dict_from_keys agents False)\<rparr>) 0 agents of
              (s1, Some e) \<Rightarrow> (s1, Inl e)
            | (s1, None) \<Rightarrow>
                (s1\<lparr>p_all_done := list_all snd dones\<rparr>,
                 Inr (read_dict_obs s1,
                      pad_agent_data rewards agents 0,
                      pad_agent_data dones agents False,
                      pad_agent_data truncateds agents False,
                      infos))))"

text \<open>\<open>PettingZooPufferEnv.step\<close>.\<close>

definition PettingZoo_step :: "'v::zero lib \<Rightarrow> ('e, 'v, 'i) pz_env \<Rightarrow> ('e, 'v) pz_state \<Rightarrow>
    pz_actions \<Rightarrow>
    ('e, 'v) pz_state \<times>
    (error + (string \<times> 'v pyobj) list \<times> (string \<times> real) list \<times> (string \<times> bool) list
             \<times> (string \<times> bool) list \<times> 'i)" where
  "PettingZoo_step lib ops s actions =
     (if \<not> p_initialized s then (s, Inl APIUsageError)
      else if PettingZoo_done ops s then (s, Inl APIUsageError)
      else case (case actions of
                   ActArray a \<Rightarrow> actions_from_array a [] 0 (pz_possible_agents ops (p_env s))
                 | ActDict d \<Rightarrow> Inr d) of
        Inl e \<Rightarrow> (s, Inl e)
      | Inr acts \<Rightarrow>
          (case step_check lib s acts of
             (s1, Some e) \<Rightarrow> (s1, Inl e)
           | (s1, None) \<Rightarrow>
               (case unpack_actions lib ops s1 [] acts of
                  Inl e \<Rightarrow> (s1, Inl e)
                | Inr unpacked \<Rightarrow>
                    (case pz_step_call ops (p_env s1) unpacked of
                       (e', Inl e) \<Rightarrow>
                         (s1\<lparr>p_env := e', p_calls := p_calls s1 @ [CallStepAgents unpacked]\<rparr>,
                          Inl e)
                     | (e', Inr answer) \<Rightarrow>
                         step_finish lib ops
                           (s1\<lparr>p_env := e', p_calls := p_calls s1 @ [CallStepAgents unpacked]\<rparr>)
                           answer))))"

text \<open>
  A caller's sequence of calls on one adapter. A call that raises leaves the adapter in
  the state it had reached, and the caller may go on.
\<close>

datatype gym_cmd = GReset "int option" | GStep ndarray

definition gym_exec :: "'v lib \<Rightarrow> ('e, 'v, 'i) gym_env \<Rightarrow> ('e, 'v) gym_state \<Rightarrow> gym_cmd \<Rightarrow>
    ('e, 'v) gym_state" where
  "gym_exec lib ops s cmd =
     (case cmd of
        GReset seed \<Rightarrow> fst (Gymnasium_reset lib ops s seed)
      | GStep action \<Rightarrow> fst (Gymnasium_step lib ops s action))"

definition gym_run :: "'v lib \<Rightarrow> ('e, 'v, 'i) gym_env \<Rightarrow> ('e, 'v) gym_state \<Rightarrow> gym_cmd list \<Rightarrow>
    ('e, 'v) gym_state" where
  "gym_run lib ops s cmds = foldl (gym_exec lib ops) s cmds"

datatype pz_cmd = PReset "int option" | PStep pz_actions

definition pz_exec :: "'v::zero lib \<Rightarrow> ('e, 'v, 'i) pz_env \<Rightarrow> ('e, 'v) pz_state \<Rightarrow> pz_cmd \<Rightarrow>
    ('e, 'v) pz_state" where
  "pz_exec lib ops s cmd =
     (case cmd of
        PReset seed \<Rightarrow> fst (PettingZoo_reset lib ops s seed)
      | PStep actions \<Rightarrow> fst (PettingZoo_step lib ops s actions))"

definition pz_run :: "'v::zero lib \<Rightarrow> ('e, 'v, 'i) pz_env \<Rightarrow> ('e, 'v) pz_state \<Rightarrow> pz_cmd list \<Rightarrow>
    ('e, 'v) pz_state" where
  "pz_run lib ops s cmds = foldl (pz_exec lib ops) s cmds"

text \<open>
  The part of a multi-agent adapter's state that the loops over the agents leave alone:
  they write observations, masks and the shared buffer only.
\<close>

definition same_control :: "('e, 'v) pz_state \<Rightarrow> ('e, 'v) pz_state \<Rightarrow> bool" where
  "same_control s s' =
     (p_env s' = p_env s \<and> p_all_done s' = p_all_done s \<and> p_calls s' = p_calls s
      \<and> p_initialized s' = p_initialized s
      \<and> p_is_observation_checked s' = p_is_observation_checked s
      \<and> p_is_action_checked s' = p_is_action_checked s
      \<and> p_single_observation_space s' = p_single_observation_space s
      \<and> p_single_action_space s' = p_single_action_space s)"

section \<open>Example environments\<close>

text \<open>
  Concrete collaborators to run the adapters on: a library whose containment test always
  answers yes, over the integer codec; a single-agent environment of the old API, whose
  \<open>reset\<close> takes no seed and which has no \<open>seed\<close> method, and which terminates at its
  second step; a two-agent environment in which \<open>b\<close> leaves after the first step and
  \<open>a\<close> terminates at the second; and one whose \<open>reset\<close> starts with \<open>a\<close> alone.
\<close>

definition int_lib :: "int lib" where
  "int_lib = \<lparr> np_enc = enc_int, np_dec = dec_int, contains = (\<lambda>sp x. Inr True) \<rparr>"

definition legacy_env :: "(nat, int, unit) gym_env" where
  "legacy_env =
     \<lparr> reset_seeded = (\<lambda>e sd. (e, Inl TypeError)),
       reset_plain = (\<lambda>e. (0, Inr (SVal 0, ()))),
       seed_call = (\<lambda>e sd. (e, Inl AttributeError)),
       step_call = (\<lambda>e a. (Suc e, Inr (SVal (int (Suc e)), 1, 2 \<le> Suc e, False, ()))),
       env_observation_space = Discrete 10,
       env_action_space = Tuple [Discrete 2, Discrete 3] \<rparr>"

definition duo_env :: "(nat, int, unit) pz_env" where
  "duo_env =
     \<lparr> pz_reset_call = (\<lambda>e seed.
          (0, Inr ([(''a'', SArr [2] [0, 0]), (''b'', SArr [2] [0, 0])], ()))),
       pz_step_call = (\<lambda>e acts.
          (Suc e,
           Inr (if e = 0
                then ([(''a'', SArr [2] [1, 1])], [(''a'', 1)], [(''a'', False)],
                      [(''a'', False)], ())
                else ([(''a'', SArr [2] [2, 2])], [(''a'', 1)], [(''a'', True)],
                      [(''a'', False)], ())))),
       pz_agents = (\<lambda>e. if e = 0 then [''a'', ''b''] else if e = 1 then [''a''] else []),
       pz_possible_agents = (\<lambda>e. [''a'', ''b'']),
       pz_observation_space = (\<lambda>agent. Box 0 9 [2] Int64),
       pz_action_space = (\<lambda>agent. Discrete 2) \<rparr>"

definition late_env :: "(nat, int, unit) pz_env" where
  "late_env = duo_env \<lparr> pz_reset_call := (\<lambda>e seed. (0, Inr ([(''a'', SArr [2] [0, 0])], ()))) \<rparr>"

text \<open>The adapter a constructor call returned.\<close>

definition constructed :: "error + 'a \<Rightarrow> 'a" where
  "constructed r = (case r of Inr s \<Rightarrow> s)"

definition legacy_adapter :: "(nat, int) gym_state" where
  "legacy_adapter = constructed (GymnasiumPufferEnv legacy_env 0)"

definition legacy_action :: ndarray where
  "legacy_action = Array Int64 [2] (enc_int Int64 1 @ enc_int Int64 2)"

definition duo_adapter :: "(nat, int) pz_state" where
  "duo_adapter = constructed (PettingZooPufferEnv duo_env 0)"

definition duo_actions :: pz_actions where
  "duo_actions =
     ActDict [(''a'', Array Int64 [] (enc_int Int64 1)), (''b'', Array Int64 [] (enc_int Int64 0))]"

text \<open>
  A two-agent environment that reports a done flag for every possible agent and keeps
  a finished agent listed until its next step: after the first step \<open>a\<close> is done and
  still listed, \<open>b\<close> has left and is reported not done.
\<close>

definition stale_env :: "(nat, int, unit) pz_env" where
  "stale_env = duo_env
     \<lparr> pz_step_call := (\<lambda>e acts.
          (Suc e, Inr ([(''a'', SArr [2] [1, 1])], [(''a'', 1), (''b'', 0)],
                       [(''a'', True), (''b'', False)], [(''a'', False), (''b'', False)], ()))),
       pz_agents := (\<lambda>e. if e = 0 then [''a'', ''b''] else [''a'']) \<rparr>"

definition stale_adapter :: "(nat, int) pz_state" where
  "stale_adapter = constructed (PettingZooPufferEnv stale_env 0)"

text \<open>
  The done condition in the words of the specification: no agent is active, or every
  active agent is individually done.
\<close>

definition active_agents_done :: "string list \<Rightarrow> (string \<times> bool) list \<Rightarrow> bool" where
  "active_agents_done agents dones =
     (length agents = 0 \<or> list_all (\<lambda>a. map_of dones a = Some True) agents)"

definition late_adapter :: "(nat, int) pz_state" where
  "late_adapter = constructed (PettingZooPufferEnv late_env 0)"

text \<open>
  Counting the containment checks among the calls an adapter has made: those on a given
  space.
\<close>

fun is_check_of :: "space \<Rightarrow> 'v call \<Rightarrow> bool" where
  "is_check_of sp (CallContains sp' x) = (sp' = sp)"
| "is_check_of sp (CallResetSeeded seed) = False"
| "is_check_of sp (CallSeed seed) = False"
| "is_check_of sp CallReset = False"
| "is_check_of sp (CallStep a) = False"
| "is_check_of sp (CallResetAgents seed) = False"
| "is_check_of sp (CallStepAgents acts) = False"
| "is_check_of sp CallWarn = False"

definition checks_of :: "space \<Rightarrow> 'v call list \<Rightarrow> nat" where
  "checks_of sp calls = length (filter (is_check_of sp) calls)"

(*DEFS-END*)

section \<open>Layouts and derived views\<close>

lemma itemsize_pos: "0 < itemsize d"
  by (cases d) simp_all

lemma alignment_pos: "0 < alignment d"
  by (simp add: alignment_def itemsize_pos)

lemma dt_alignment_pos: "0 < dt_alignment t"
  and fields_alignment_pos: "0 < fields_alignment fs"
  by (induction t and fs rule: dt_alignment_fields_alignment.induct)
     (simp_all add: alignment_pos)








lemma leaf_ns_not_discrete:
  "\<exists>l\<in>set ls. \<not> is_discrete l \<Longrightarrow> leaf_ns ls = Inl AttributeError"
proof (induction ls)
  case Nil
  then show ?case by simp
next
  case (Cons l ls)
  show ?case
  proof (cases l)
    case (Discrete n)
    with Cons show ?thesis by simp
  qed simp_all
qed

text \<open>
  C3, as the code has it. When a leaf of an action space has no attribute \<open>n\<close> (a
  \<open>Box\<close>, say), building the flat action view fails and nothing is coerced, but the
  exception is the \<open>AttributeError\<close> of the attribute lookup: the module raises no
  error of its own here.
\<close>

theorem action_view_without_cardinality:
  assumes "\<not> is_discrete sp"
    and "\<exists>l\<in>set (flatten_space sp). \<not> is_discrete l"
  shows "emulate_action_space sp = Inl AttributeError"
  using assms leaf_ns_not_discrete[OF assms(2)] by (cases sp) simp_all

theorem action_view_without_cardinality_witness:
  "emulate_action_space
     (Dict [(''move'', Discrete 4), (''turn'', Box (- 1) 1 [2] Float32)]) =
   Inl AttributeError"
  using action_view_without_cardinality
          [of "Dict [(''move'', Discrete 4), (''turn'', Box (- 1) 1 [2] Float32)]"]
  by simp

theorem action_view_unsupported_counterexample:
  "emulate_action_space (Tuple [Discrete 2, Box 0 1 [] Float32]) = Inl AttributeError
   \<and> emulate_action_space (Tuple [Discrete 2, Box 0 1 [] Float32]) \<noteq>
       Inl UnsupportedSchemaError"
  by simp

section \<open>Buffers and field offsets\<close>

lemma length_write_at: "off + length bs \<le> length buf \<Longrightarrow> length (write_at buf off bs) = length buf"
  by (simp add: write_at_def)

lemma nth_write_at_outside:
  "off + length bs \<le> length buf \<Longrightarrow> i < off \<or> off + length bs \<le> i \<Longrightarrow>
   write_at buf off bs ! i = buf ! i"
  by (auto simp: write_at_def nth_append)

lemma read_write_at: "off + length bs \<le> length buf \<Longrightarrow> read_at (write_at buf off bs) off (length bs) = bs"
  by (simp add: write_at_def read_at_def)

lemma read_at_sub: "p + n' \<le> n \<Longrightarrow> read_at (read_at buf off n) p n' = read_at buf (off + p) n'"
  by (simp add: read_at_def take_drop min_def add.commute)

lemma read_at_cong:
  assumes "length b1 = length b2"
    and "\<And>i. off \<le> i \<Longrightarrow> i < off + n \<Longrightarrow> i < length b1 \<Longrightarrow> b1 ! i = b2 ! i"
  shows "read_at b1 off n = read_at b2 off n"
  unfolding read_at_def using assms
  by (intro nth_equalityI) (auto)

lemma align_up_ge:
  assumes "0 < a"
  shows "off \<le> align_up off a"
proof -
  let ?x = "off + a - 1"
  have "?x div a * a + ?x mod a = ?x" by (rule div_mult_mod_eq)
  moreover have "?x mod a < a" using assms by simp
  ultimately have "off \<le> ?x div a * a" using assms by linarith
  then show ?thesis by (simp add: align_up_def)
qed

lemma fields_end_ge: "c \<le> fields_end c fs"
proof (induction fs arbitrary: c)
  case Nil
  show ?case by simp
next
  case (Cons f fs)
  have "c \<le> align_up c (dt_alignment (snd f))" by (rule align_up_ge[OF dt_alignment_pos])
  also have "\<dots> \<le> align_up c (dt_alignment (snd f)) + dt_itemsize (snd f)" by simp
  also have "\<dots> \<le> fields_end (align_up c (dt_alignment (snd f)) + dt_itemsize (snd f)) fs"
    by (rule Cons.IH)
  finally show ?case by simp
qed

lemma field_at_bounds:
  "field_at c fs k = Some (p, t) \<Longrightarrow> c \<le> p \<and> p + dt_itemsize t \<le> fields_end c fs"
proof (induction fs arbitrary: c)
  case Nil
  then show ?case by simp
next
  case (Cons f fs)
  let ?start = "align_up c (dt_alignment (snd f))"
  have ge: "c \<le> ?start" by (rule align_up_ge[OF dt_alignment_pos])
  show ?case
  proof (cases "fst f = k")
    case True
    with Cons.prems have "p = ?start" "t = snd f" by (auto simp: Let_def)
    with ge fields_end_ge[of "?start + dt_itemsize (snd f)" fs] show ?thesis by simp
  next
    case False
    with Cons.prems have "field_at (?start + dt_itemsize (snd f)) fs k = Some (p, t)"
      by (simp add: Let_def)
    from Cons.IH[OF this] ge show ?thesis by simp
  qed
qed

lemma getfield_bounds:
  assumes "getfield dt k = Inr (p, t)"
  shows "p + dt_itemsize t \<le> dt_itemsize dt"
proof (cases dt)
  case (Base d shp)
  with assms show ?thesis by simp
next
  case (Struct fs)
  with assms have "field_at 0 fs k = Some (p, t)" by (simp split: option.splits)
  then have "p + dt_itemsize t \<le> fields_end 0 fs" by (simp add: field_at_bounds)
  also have "\<dots> \<le> align_up (fields_end 0 fs) (fields_alignment fs)"
    by (rule align_up_ge[OF fields_alignment_pos])
  finally show ?thesis by (simp add: Struct)
qed

lemma fields_end_append: "fields_end c (pre @ fs) = fields_end (fields_end c pre) fs"
  by (induction pre arbitrary: c) simp_all

lemma field_at_append:
  "k \<notin> fst ` set pre \<Longrightarrow>
   field_at c (pre @ (k, t) # post) k = Some (align_up (fields_end c pre) (dt_alignment t), t)"
  by (induction pre arbitrary: c) (auto simp: Let_def)

lemma digit_val_digit: "k < 10 \<Longrightarrow> digit_val (digit k) = k"
proof -
  assume "k < 10"
  then have "k = 0 \<or> k = 1 \<or> k = 2 \<or> k = 3 \<or> k = 4 \<or> k = 5 \<or> k = 6 \<or> k = 7 \<or> k = 8 \<or> k = 9"
    by arith
  then show ?thesis by (elim disjE) (simp_all add: digit_def digit_val_def)
qed

lemma undigits_digits: "undigits (digits n) = n"
proof (induction n rule: digits.induct)
  case (1 n)
  show ?case
  proof (cases "n < 10")
    case True
    then show ?thesis by (simp add: undigits_def digit_val_digit)
  next
    case False
    have "undigits (digits n) = 10 * undigits (digits (n div 10)) + digit_val (digit (n mod 10))"
      using False by (subst digits.simps) (simp add: undigits_def)
    also have "\<dots> = 10 * (n div 10) + n mod 10"
      using 1[OF False] by (simp add: digit_val_digit)
    finally show ?thesis by simp
  qed
qed

lemma fname_inj: "fname i = fname j \<Longrightarrow> i = j"
  by (metis undigits_digits fname_def list.inject)

lemma tuple_fields_names: "map fst (tuple_fields i es) = map fname [i..<i + length es]"
  by (induction es arbitrary: i) (simp_all add: upt_rec)

lemma fname_notin_later: "i < j \<Longrightarrow> fname i \<notin> fst ` set (tuple_fields j es)"
proof -
  assume "i < j"
  have "fst ` set (tuple_fields j es) = set (map fst (tuple_fields j es))" by simp
  also have "\<dots> = fname ` {j..<j + length es}" by (simp add: tuple_fields_names)
  finally show ?thesis using \<open>i < j\<close> by (auto dest: fname_inj)
qed

lemma read_at_region:
  assumes "read_at b1 off n = read_at b2 off n" and "p + n' \<le> n"
  shows "read_at b1 (off + p) n' = read_at b2 (off + p) n'"
  using assms read_at_sub[of p n' n b1 off] read_at_sub[of p n' n b2 off] by simp

lemma element_local:
  "read_at b1 off (dt_itemsize dt) = read_at b2 off (dt_itemsize dt) \<Longrightarrow>
     element dec b1 off dt = element dec b2 off dt"
  "read_at b1 (base + c) (fields_end c fs - c) = read_at b2 (base + c) (fields_end c fs - c) \<Longrightarrow>
     element_fields dec b1 base c fs = element_fields dec b2 base c fs"
proof (induction dec b1 off dt and dec b1 base c fs rule: element_element_fields.induct)
  case (1 dec arr off d shp)
  show ?case
  proof (cases "shp = []")
    case True
    with 1 show ?thesis by simp
  next
    case False
    have "\<And>j. j < prod_list shp \<Longrightarrow>
        read_at arr (off + j * itemsize d) (itemsize d) = read_at b2 (off + j * itemsize d) (itemsize d)"
    proof -
      fix j assume "j < prod_list shp"
      then have "Suc j \<le> prod_list shp" by simp
      then have "Suc j * itemsize d \<le> prod_list shp * itemsize d" by (rule mult_le_mono1)
      then have "j * itemsize d + itemsize d \<le> itemsize d * prod_list shp" by (simp add: mult.commute)
      with 1 show "read_at arr (off + j * itemsize d) (itemsize d) = read_at b2 (off + j * itemsize d) (itemsize d)"
        by (intro read_at_region[where n = "itemsize d * prod_list shp"]) simp_all
    qed
    then show ?thesis using False by simp
  qed
next
  case (2 dec arr off fs)
  have le: "fields_end 0 fs \<le> dt_itemsize (Struct fs)"
    by (simp add: align_up_ge[OF fields_alignment_pos])
  from "2.prems" read_at_region[of arr off "dt_itemsize (Struct fs)" b2 0 "fields_end 0 fs"] le
  have "read_at arr (off + 0) (fields_end 0 fs - 0) = read_at b2 (off + 0) (fields_end 0 fs - 0)"
    by simp
  from "2.IH"[OF this] show ?case by simp
next
  case (3 dec arr base off)
  show ?case by simp
next
  case (4 dec arr base off f fs)
  let ?start = "align_up off (dt_alignment (snd f))"
  let ?next = "?start + dt_itemsize (snd f)"
  have ge: "off \<le> ?start" by (rule align_up_ge[OF dt_alignment_pos])
  have ge2: "?next \<le> fields_end ?next fs" by (rule fields_end_ge)
  have e: "fields_end off (f # fs) = fields_end ?next fs" by simp
  let ?n = "fields_end ?next fs - off"
  from "4.prems" have h: "read_at arr (base + off) ?n = read_at b2 (base + off) ?n" by simp
  have a: "read_at arr (base + off + (?start - off)) (dt_itemsize (snd f))
         = read_at b2 (base + off + (?start - off)) (dt_itemsize (snd f))"
    using ge ge2 by (intro read_at_region[OF h]) simp
  have b: "read_at arr (base + off + (?next - off)) (fields_end ?next fs - ?next)
         = read_at b2 (base + off + (?next - off)) (fields_end ?next fs - ?next)"
    using ge ge2 by (intro read_at_region[OF h]) simp
  have a': "read_at arr (base + ?start) (dt_itemsize (snd f)) = read_at b2 (base + ?start) (dt_itemsize (snd f))"
    using a ge by (simp add: add.assoc)
  have b': "read_at arr (base + ?next) (fields_end ?next fs - ?next) = read_at b2 (base + ?next) (fields_end ?next fs - ?next)"
    using b ge by (simp add: add.assoc)
  from "4.IH"(1)[OF refl a'] "4.IH"(2)[OF refl b'] show ?case by (simp add: Let_def)
qed



lemma item_local:
  assumes "read_at b1 off (dt_itemsize dt) = read_at b2 off (dt_itemsize dt)"
  shows "item dec b1 m off dt = item dec b2 m off dt"
proof (cases dt)
  case (Base d shp)
  show ?thesis
  proof (cases "m * prod_list shp = 1")
    case True
    then have "prod_list shp = 1" "m = 1" by simp_all
    with assms Base show ?thesis by simp
  next
    case False
    with Base show ?thesis by (simp del: mult_eq_1_iff)
  qed
next
  case (Struct fs)
  from assms have "element dec b1 off dt = element dec b2 off dt" by (rule element_local(1))
  with Struct show ?thesis by simp
qed

lemma nativize_local:
  "read_at b1 off (dt_itemsize dt) = read_at b2 off (dt_itemsize dt) \<Longrightarrow>
     nativize' dec b1 m off dt sp = nativize' dec b2 m off dt sp"
  "read_at b1 off (dt_itemsize dt) = read_at b2 off (dt_itemsize dt) \<Longrightarrow>
     nativize_elems dec b1 m off dt i es = nativize_elems dec b2 m off dt i es"
  "read_at b1 off (dt_itemsize dt) = read_at b2 off (dt_itemsize dt) \<Longrightarrow>
     nativize_items dec b1 m off dt kvs = nativize_items dec b2 m off dt kvs"
proof (induction dec b1 m off dt sp and dec b1 m off dt i es and dec b1 m off dt kvs
    rule: nativize'_nativize_elems_nativize_items.induct)
  case (1 dec arr m off dt elems)
  then show ?case by simp
next
  case (2 dec arr m off dt items)
  then show ?case by simp
next
  case (3 dec arr m off dt lo hi shp d)
  from item_local[OF this] show ?case by simp
next
  case (4 dec arr m off dt n)
  from item_local[OF this] show ?case by simp
next
  case (5 dec arr m off dt nvec)
  from item_local[OF this] show ?case by simp
next
  case (6 dec arr m off dt i)
  show ?case by simp
next
  case (7 dec arr m off dt i elem elems)
  show ?case
  proof (cases "getfield dt (fname i)")
    case (Inl e)
    then show ?thesis by simp
  next
    case (Inr fld)
    then have "fst fld + dt_itemsize (snd fld) \<le> dt_itemsize dt"
      using getfield_bounds[of dt "fname i" "fst fld" "snd fld"] by simp
    from read_at_region[OF "7.prems" this]
    have r: "read_at arr (off + fst fld) (dt_itemsize (snd fld)) = read_at b2 (off + fst fld) (dt_itemsize (snd fld))" .
    from "7.IH"(1)[OF Inr r]
    have h: "nativize' dec arr m (off + fst fld) (snd fld) elem = nativize' dec b2 m (off + fst fld) (snd fld) elem" .
    show ?thesis
    proof (cases "nativize' dec arr m (off + fst fld) (snd fld) elem")
      case e: (Inl e)
      then have e2: "nativize' dec b2 m (off + fst fld) (snd fld) elem = Inl e" using h by simp
      show ?thesis by (simp add: Inr e e2)
    next
      case v: (Inr v)
      from "7.IH"(2)[OF Inr v "7.prems"]
      have t: "nativize_elems dec arr m off dt (Suc i) elems = nativize_elems dec b2 m off dt (Suc i) elems" .
      have v2: "nativize' dec b2 m (off + fst fld) (snd fld) elem = Inr v" using h v by simp
      show ?thesis by (simp add: Inr v v2 t)
    qed
  qed
next
  case (8 dec arr m off dt)
  show ?case by simp
next
  case (9 dec arr m off dt kv items)
  show ?case
  proof (cases "getfield dt (fst kv)")
    case (Inl e)
    then show ?thesis by simp
  next
    case (Inr fld)
    then have "fst fld + dt_itemsize (snd fld) \<le> dt_itemsize dt"
      using getfield_bounds[of dt "fst kv" "fst fld" "snd fld"] by simp
    from read_at_region[OF "9.prems" this]
    have r: "read_at arr (off + fst fld) (dt_itemsize (snd fld)) = read_at b2 (off + fst fld) (dt_itemsize (snd fld))" .
    from "9.IH"(1)[OF Inr r]
    have h: "nativize' dec arr m (off + fst fld) (snd fld) (snd kv) = nativize' dec b2 m (off + fst fld) (snd fld) (snd kv)" .
    show ?thesis
    proof (cases "nativize' dec arr m (off + fst fld) (snd fld) (snd kv)")
      case e: (Inl e)
      then have e2: "nativize' dec b2 m (off + fst fld) (snd fld) (snd kv) = Inl e" using h by simp
      show ?thesis by (simp add: Inr e e2)
    next
      case v: (Inr v)
      from "9.IH"(2)[OF Inr v "9.prems"]
      have t: "nativize_items dec arr m off dt items = nativize_items dec b2 m off dt items" .
      have v2: "nativize' dec b2 m (off + fst fld) (snd fld) (snd kv) = Inr v" using h v by simp
      show ?thesis by (simp add: Inr v v2 t)
    qed
  qed
qed

lemma scalar_roundtrip:
  assumes ws: "well_sized enc" and v: "dec d (enc d v) = v"
    and len: "off + itemsize d \<le> length buf"
  shows "snd (setitem enc buf off (Base d []) (SVal v)) = None"
    and "length (fst (setitem enc buf off (Base d []) (SVal v))) = length buf"
    and "\<forall>i. i < off \<or> off + itemsize d \<le> i \<longrightarrow>
          fst (setitem enc buf off (Base d []) (SVal v)) ! i = buf ! i"
    and "item dec (fst (setitem enc buf off (Base d []) (SVal v))) 1 off (Base d []) = Inr (SVal v)"
proof -
  have l: "length (enc d v) = itemsize d" using ws by (simp add: well_sized_def)
  have w: "fst (setitem enc buf off (Base d []) (SVal v)) = write_at buf off (enc d v)"
    by simp
  show "snd (setitem enc buf off (Base d []) (SVal v)) = None" by simp
  show "length (fst (setitem enc buf off (Base d []) (SVal v))) = length buf"
    unfolding w using len l by (simp add: length_write_at)
  show "\<forall>i. i < off \<or> off + itemsize d \<le> i \<longrightarrow>
          fst (setitem enc buf off (Base d []) (SVal v)) ! i = buf ! i"
    unfolding w using len l by (simp add: nth_write_at_outside)
  have "read_at (write_at buf off (enc d v)) off (length (enc d v)) = enc d v"
    using len l by (intro read_write_at) simp
  then show "item dec (fst (setitem enc buf off (Base d []) (SVal v))) 1 off (Base d []) = Inr (SVal v)"
    unfolding w using l v by simp
qed

lemma writes_within_mono:
  "writes_within buf r lo hi \<Longrightarrow> lo' \<le> lo \<Longrightarrow> hi \<le> hi' \<Longrightarrow> writes_within buf r lo' hi'"
  by (auto simp: writes_within_def)

lemma writes_within_read:
  assumes "writes_within buf r lo hi" and "p + n \<le> lo \<or> hi \<le> p"
  shows "read_at (fst r) p n = read_at buf p n"
  using assms by (intro read_at_cong) (auto simp: writes_within_def)

lemma writes_within_trans:
  assumes "writes_within buf r lo hi" and "writes_within (fst r) r' lo' hi'"
  shows "writes_within buf r' (min lo lo') (max hi hi')"
  using assms by (auto simp: writes_within_def)

lemma emulate_elems_Cons:
  assumes "getfield dt (fname i) = Inr fld"
    and "snd (emulate' enc buf (off + fst fld) (snd fld) v) = None"
  shows "emulate_elems enc buf off dt i (v # vs) =
         emulate_elems enc (fst (emulate' enc buf (off + fst fld) (snd fld) v)) off dt (Suc i) vs"
  using assms by (cases "emulate' enc buf (off + fst fld) (snd fld) v") simp

lemma emulate_items_Cons:
  assumes "getfield dt (fst kv) = Inr fld"
    and "snd (emulate' enc buf (off + fst fld) (snd fld) (snd kv)) = None"
  shows "emulate_items enc buf off dt (kv # kvs) =
         emulate_items enc (fst (emulate' enc buf (off + fst fld) (snd fld) (snd kv))) off dt kvs"
  using assms by (cases "emulate' enc buf (off + fst fld) (snd fld) (snd kv)") simp

lemma getfield_append:
  assumes "k \<notin> fst ` set pre"
  shows "getfield (Struct (pre @ (k, t) # post)) k =
         Inr (align_up (fields_end 0 pre) (dt_alignment t), t)"
  using field_at_append[OF assms, of 0 t post] by simp

section \<open>The round trip\<close>

lemma field_step:
  assumes w1: "writes_within buf r1 (off + start) (off + (start + dt_itemsize t))"
    and n1: "nativize' dec (fst r1) 1 (off + start) t sp = Inr v"
    and w2: "writes_within (fst r1) r2 (off + (start + dt_itemsize t)) (off + e)"
    and c: "c \<le> start" and e: "start + dt_itemsize t \<le> e"
  shows "writes_within buf r2 (off + c) (off + e)"
    and "nativize' dec (fst r2) 1 (off + start) t sp = Inr v"
proof -
  from w1 w2 c e show "writes_within buf r2 (off + c) (off + e)"
    by (auto simp: writes_within_def)
  have "read_at (fst r2) (off + start) (dt_itemsize t) = read_at (fst r1) (off + start) (dt_itemsize t)"
    using w2 by (rule writes_within_read) simp
  then have "nativize' dec (fst r2) 1 (off + start) t sp = nativize' dec (fst r1) 1 (off + start) t sp"
    by (rule nativize_local(1))
  with n1 show "nativize' dec (fst r2) 1 (off + start) t sp = Inr v" by (simp only:)
qed

lemma roundtrip_rec:
  "well_sized enc \<Longrightarrow> conforms enc dec sp s \<Longrightarrow> scalar_leaves sp \<Longrightarrow> distinct_keys sp \<Longrightarrow>
   off + dt_itemsize (dtype_from_space sp) \<le> length buf \<Longrightarrow>
     writes_within buf (emulate' enc buf off (dtype_from_space sp) s)
        off (off + dt_itemsize (dtype_from_space sp))
     \<and> nativize' dec (fst (emulate' enc buf off (dtype_from_space sp) s)) 1 off
          (dtype_from_space sp) sp = Inr s"
  "well_sized enc \<Longrightarrow> conforms_elems enc dec es vs \<Longrightarrow>
   list_all (\<lambda>l. space_shape l = []) (flatten_spaces es) \<Longrightarrow> distinct_keys_elems es \<Longrightarrow>
   (\<forall>j\<ge>i. fname j \<notin> fst ` set pre) \<Longrightarrow>
   off + fields_end (fields_end 0 pre) (tuple_fields i es) \<le> length buf \<Longrightarrow>
     writes_within buf (emulate_elems enc buf off (Struct (pre @ tuple_fields i es)) i vs)
        (off + fields_end 0 pre) (off + fields_end (fields_end 0 pre) (tuple_fields i es))
     \<and> nativize_elems dec (fst (emulate_elems enc buf off (Struct (pre @ tuple_fields i es)) i vs))
          1 off (Struct (pre @ tuple_fields i es)) i es = Inr vs"
  "well_sized enc \<Longrightarrow> conforms_items enc dec kvs svs \<Longrightarrow>
   list_all (\<lambda>l. space_shape l = []) (flatten_values kvs) \<Longrightarrow> distinct_keys_items kvs \<Longrightarrow>
   distinct (map fst kvs) \<Longrightarrow> fst ` set kvs \<inter> fst ` set pre = {} \<Longrightarrow>
   off + fields_end (fields_end 0 pre) (dict_fields kvs) \<le> length buf \<Longrightarrow>
     writes_within buf (emulate_items enc buf off (Struct (pre @ dict_fields kvs)) svs)
        (off + fields_end 0 pre) (off + fields_end (fields_end 0 pre) (dict_fields kvs))
     \<and> nativize_items dec (fst (emulate_items enc buf off (Struct (pre @ dict_fields kvs)) svs))
          1 off (Struct (pre @ dict_fields kvs)) kvs = Inr svs"
proof (induction sp and i es and kvs arbitrary: s buf off and pre vs buf off and pre svs buf off
    rule: dtype_from_space_tuple_fields_dict_fields.induct)
  case (1 elems)
  from "1.prems"(2) obtain vs where s: "s = STuple vs" and cf: "conforms_elems enc dec elems vs"
    by (cases s) simp_all
  let ?fs = "tuple_fields 0 elems"
  have le: "fields_end 0 ?fs \<le> dt_itemsize (Struct ?fs)"
    by (simp add: align_up_ge[OF fields_alignment_pos])
  have "writes_within buf (emulate_elems enc buf off (Struct ([] @ ?fs)) 0 vs)
          (off + fields_end 0 []) (off + fields_end (fields_end 0 []) ?fs)
        \<and> nativize_elems dec (fst (emulate_elems enc buf off (Struct ([] @ ?fs)) 0 vs))
          1 off (Struct ([] @ ?fs)) 0 elems = Inr vs"
    using "1.prems" cf le by (intro "1.IH") (simp_all add: scalar_leaves_def)
  then show ?case using le
    by (auto simp: s elim: writes_within_mono)
next
  case (2 items)
  from "2.prems"(2) obtain svs where s: "s = SDict svs" and cf: "conforms_items enc dec items svs"
    by (cases s) simp_all
  let ?fs = "dict_fields items"
  have le: "fields_end 0 ?fs \<le> dt_itemsize (Struct ?fs)"
    by (simp add: align_up_ge[OF fields_alignment_pos])
  have "writes_within buf (emulate_items enc buf off (Struct ([] @ ?fs)) svs)
          (off + fields_end 0 []) (off + fields_end (fields_end 0 []) ?fs)
        \<and> nativize_items dec (fst (emulate_items enc buf off (Struct ([] @ ?fs)) svs))
          1 off (Struct ([] @ ?fs)) items = Inr svs"
    using "2.prems" cf le by (intro "2.IH") (simp_all add: scalar_leaves_def)
  then show ?case using le
    by (auto simp: s elim: writes_within_mono)
next
  case (3 lo hi shp d)
  from "3.prems"(3) have shp: "shp = []" by (simp add: scalar_leaves_def)
  with "3.prems"(2) obtain v where s: "s = SVal v" and v: "dec d (enc d v) = v"
    by (cases s) simp_all
  from "3.prems"(5) shp have len: "off + itemsize d \<le> length buf" by simp
  from scalar_roundtrip[of enc dec d v off buf, OF "3.prems"(1) v len] show ?case
    by (simp add: s shp writes_within_def del: setitem.simps item.simps)
next
  case (4 n)
  from "4.prems"(2) obtain v where s: "s = SVal v" and v: "dec Int64 (enc Int64 v) = v"
    by (cases s) simp_all
  from "4.prems"(5) have len: "off + itemsize Int64 \<le> length buf" by simp
  from scalar_roundtrip[of enc dec Int64 v off buf, OF "4.prems"(1) v len] show ?case
    by (simp add: s writes_within_def del: setitem.simps item.simps)
next
  case (5 nvec)
  then show ?case by (simp add: scalar_leaves_def)
next
  case (6 i)
  then show ?case by (simp add: writes_within_def)
next
  case (7 i elem elems)
  from "7.prems"(2) obtain v vs' where vs: "vs = v # vs'"
    and cv: "conforms enc dec elem v" and cvs: "conforms_elems enc dec elems vs'"
    by (cases vs) simp_all
  let ?t = "dtype_from_space elem"
  let ?c = "fields_end 0 pre"
  let ?start = "align_up ?c (dt_alignment ?t)"
  let ?nxt = "?start + dt_itemsize ?t"
  let ?rest = "tuple_fields (Suc i) elems"
  let ?dt = "Struct (pre @ (fname i, ?t) # ?rest)"
  let ?e = "fields_end ?nxt ?rest"
  let ?pre' = "pre @ [(fname i, ?t)]"
  have dt: "Struct (pre @ tuple_fields i (elem # elems)) = ?dt" by simp
  have dt': "Struct (?pre' @ ?rest) = ?dt" by simp
  have e: "fields_end ?c (tuple_fields i (elem # elems)) = ?e" by simp
  have c': "fields_end 0 ?pre' = ?nxt" by (simp add: fields_end_append)
  have ge: "?c \<le> ?start" by (rule align_up_ge[OF dt_alignment_pos])
  have ge2: "?nxt \<le> ?e" by (rule fields_end_ge)
  from "7.prems"(6) have len: "off + ?e \<le> length buf" by simp
  from "7.prems"(5) have "fname i \<notin> fst ` set pre" by simp
  then have gf: "getfield ?dt (fname i) = Inr (?start, ?t)" by (rule getfield_append)
  let ?r1 = "emulate' enc buf (off + ?start) ?t v"
  have h1: "writes_within buf ?r1 (off + ?start) (off + ?start + dt_itemsize ?t)
      \<and> nativize' dec (fst ?r1) 1 (off + ?start) ?t elem = Inr v"
    using "7.prems" cv len ge2 by (intro "7.IH"(1)) (simp_all add: scalar_leaves_def)
  then have w1: "writes_within buf ?r1 (off + ?start) (off + (?start + dt_itemsize ?t))"
    and n1: "nativize' dec (fst ?r1) 1 (off + ?start) ?t elem = Inr v"
    by (simp_all add: add.assoc)
  from w1 have ok1: "snd ?r1 = None" and l1: "length (fst ?r1) = length buf"
    by (simp_all add: writes_within_def)
  let ?r2 = "emulate_elems enc (fst ?r1) off (Struct (?pre' @ ?rest)) (Suc i) vs'"
  have names: "\<forall>j\<ge>Suc i. fname j \<notin> fst ` set ?pre'"
    using "7.prems"(5) by (auto dest: fname_inj)
  have h2: "writes_within (fst ?r1) ?r2 (off + fields_end 0 ?pre')
        (off + fields_end (fields_end 0 ?pre') ?rest)
      \<and> nativize_elems dec (fst ?r2) 1 off (Struct (?pre' @ ?rest)) (Suc i) elems = Inr vs'"
    using "7.prems"(1,3,4) cvs names len l1
    by (intro "7.IH"(2)) (simp_all only: c', simp_all)
  then have w2: "writes_within (fst ?r1) ?r2 (off + ?nxt) (off + ?e)"
    and n2: "nativize_elems dec (fst ?r2) 1 off ?dt (Suc i) elems = Inr vs'"
    by (simp_all only: c' dt')
  have r: "emulate_elems enc buf off ?dt i (v # vs') = ?r2"
    using emulate_elems_Cons[of ?dt i "(?start, ?t)" enc buf off v vs'] gf ok1
    by (simp only: fst_conv snd_conv dt')
  from field_step[OF w1 n1 w2 ge ge2]
  have w: "writes_within buf ?r2 (off + ?c) (off + ?e)"
    and n: "nativize' dec (fst ?r2) 1 (off + ?start) ?t elem = Inr v" by simp_all
  have "nativize_elems dec (fst ?r2) 1 off ?dt i (elem # elems) = Inr (v # vs')"
    using gf n n2 by simp
  with w show ?case unfolding dt e vs r by simp
next
  case 8
  then show ?case by (simp add: writes_within_def)
next
  case (9 kv items)
  from "9.prems"(2) obtain sv svs' where svs: "svs = sv # svs'" and k: "fst sv = fst kv"
    and cv: "conforms enc dec (snd kv) (snd sv)" and cvs: "conforms_items enc dec items svs'"
    by (cases svs) simp_all
  let ?t = "dtype_from_space (snd kv)"
  let ?c = "fields_end 0 pre"
  let ?start = "align_up ?c (dt_alignment ?t)"
  let ?nxt = "?start + dt_itemsize ?t"
  let ?rest = "dict_fields items"
  let ?dt = "Struct (pre @ (fst kv, ?t) # ?rest)"
  let ?e = "fields_end ?nxt ?rest"
  let ?pre' = "pre @ [(fst kv, ?t)]"
  have dt: "Struct (pre @ dict_fields (kv # items)) = ?dt" by simp
  have dt': "Struct (?pre' @ ?rest) = ?dt" by simp
  have e: "fields_end ?c (dict_fields (kv # items)) = ?e" by simp
  have c': "fields_end 0 ?pre' = ?nxt" by (simp add: fields_end_append)
  have ge: "?c \<le> ?start" by (rule align_up_ge[OF dt_alignment_pos])
  have ge2: "?nxt \<le> ?e" by (rule fields_end_ge)
  from "9.prems"(7) have len: "off + ?e \<le> length buf" by simp
  from "9.prems"(6) have "fst kv \<notin> fst ` set pre" by auto
  then have gf: "getfield ?dt (fst kv) = Inr (?start, ?t)" by (rule getfield_append)
  let ?r1 = "emulate' enc buf (off + ?start) ?t (snd sv)"
  have h1: "writes_within buf ?r1 (off + ?start) (off + ?start + dt_itemsize ?t)
      \<and> nativize' dec (fst ?r1) 1 (off + ?start) ?t (snd kv) = Inr (snd sv)"
    using "9.prems" cv len ge2 by (intro "9.IH"(1)) (simp_all add: scalar_leaves_def)
  then have w1: "writes_within buf ?r1 (off + ?start) (off + (?start + dt_itemsize ?t))"
    and n1: "nativize' dec (fst ?r1) 1 (off + ?start) ?t (snd kv) = Inr (snd sv)"
    by (simp_all add: add.assoc)
  from w1 have ok1: "snd ?r1 = None" and l1: "length (fst ?r1) = length buf"
    by (simp_all add: writes_within_def)
  let ?r2 = "emulate_items enc (fst ?r1) off (Struct (?pre' @ ?rest)) svs'"
  have d1: "distinct (map fst items)" using "9.prems"(5) by simp
  have d2: "fst ` set items \<inter> fst ` set ?pre' = {}"
    using "9.prems"(5,6) by auto
  have h2: "writes_within (fst ?r1) ?r2 (off + fields_end 0 ?pre')
        (off + fields_end (fields_end 0 ?pre') ?rest)
      \<and> nativize_items dec (fst ?r2) 1 off (Struct (?pre' @ ?rest)) items = Inr svs'"
    using "9.prems"(1,3,4) cvs d1 d2 len l1
    by (intro "9.IH"(2)) (simp_all only: c', simp_all)
  then have w2: "writes_within (fst ?r1) ?r2 (off + ?nxt) (off + ?e)"
    and n2: "nativize_items dec (fst ?r2) 1 off ?dt items = Inr svs'"
    by (simp_all only: c' dt')
  have r: "emulate_items enc buf off ?dt (sv # svs') = ?r2"
    using emulate_items_Cons[of ?dt sv "(?start, ?t)" enc buf off svs'] gf ok1
    by (simp only: fst_conv snd_conv dt' k)
  from field_step[OF w1 n1 w2 ge ge2]
  have w: "writes_within buf ?r2 (off + ?c) (off + ?e)"
    and n: "nativize' dec (fst ?r2) 1 (off + ?start) ?t (snd kv) = Inr (snd sv)" by simp_all
  have "sv = (fst kv, snd sv)" using k by (cases sv) simp
  then have "nativize_items dec (fst ?r2) 1 off ?dt (kv # items) = Inr (sv # svs')"
    using gf n n2 by simp
  with w show ?case unfolding dt e svs r by simp
qed

lemma leaves_fit:
  "sum_list (map (\<lambda>l. itemsize (space_dtype l) * prod_list (space_shape l)) (flatten_space sp))
     \<le> dt_itemsize (dtype_from_space sp)"
  "c + sum_list (map (\<lambda>l. itemsize (space_dtype l) * prod_list (space_shape l)) (flatten_spaces es))
     \<le> fields_end c (tuple_fields i es)"
  "c + sum_list (map (\<lambda>l. itemsize (space_dtype l) * prod_list (space_shape l)) (flatten_values kvs))
     \<le> fields_end c (dict_fields kvs)"
proof (induction sp and i es and kvs arbitrary: and c and c
    rule: dtype_from_space_tuple_fields_dict_fields.induct)
  case (1 elems)
  have "fields_end 0 (tuple_fields 0 elems) \<le> dt_itemsize (Struct (tuple_fields 0 elems))"
    by (simp add: align_up_ge[OF fields_alignment_pos])
  with "1.IH"[of 0] show ?case by simp
next
  case (2 items)
  have "fields_end 0 (dict_fields items) \<le> dt_itemsize (Struct (dict_fields items))"
    by (simp add: align_up_ge[OF fields_alignment_pos])
  with "2.IH"[of 0] show ?case by simp
next
  case (7 i elem elems)
  let ?t = "dtype_from_space elem"
  have "c \<le> align_up c (dt_alignment ?t)" by (rule align_up_ge[OF dt_alignment_pos])
  with "7.IH"(1) "7.IH"(2)[of "align_up c (dt_alignment ?t) + dt_itemsize ?t"]
  show ?case by simp
next
  case (9 kv items)
  let ?t = "dtype_from_space (snd kv)"
  have "c \<le> align_up c (dt_alignment ?t)" by (rule align_up_ge[OF dt_alignment_pos])
  with "9.IH"(1) "9.IH"(2)[of "align_up c (dt_alignment ?t) + dt_itemsize ?t"]
  show ?case by simp
qed simp_all

lemma scalar_leaves_itemsize_pos:
  assumes "scalar_leaves sp" and "flatten_space sp \<noteq> []"
  shows "0 < dt_itemsize (dtype_from_space sp)"
proof -
  from assms(2) obtain l ls where ls: "flatten_space sp = l # ls"
    by (cases "flatten_space sp") auto
  with assms(1) have "space_shape l = []" by (simp add: scalar_leaves_def)
  then have b: "0 < itemsize (space_dtype l) * prod_list (space_shape l)"
    by (simp add: itemsize_pos)
  have a: "itemsize (space_dtype l) * prod_list (space_shape l)
      + sum_list (map (\<lambda>l. itemsize (space_dtype l) * prod_list (space_shape l)) ls)
      \<le> dt_itemsize (dtype_from_space sp)"
    using leaves_fit(1)[of sp] ls by simp
  from a b show ?thesis by linarith
qed

lemma scalar_leaves_zeros_shape:
  assumes "scalar_leaves sp"
  shows "zeros_shape (dtype_from_space sp) = (dt_itemsize (dtype_from_space sp), [1])"
    and "\<not> is_subarray (dtype_from_space sp)"
  using assms by (cases sp; simp add: scalar_leaves_def)+

lemma view_len_flat:
  assumes "0 < n" and "e dvd n"
  shows "view_len n 1 e = Inr (n div e)"
proof -
  from assms have "e \<le> n" by (simp add: dvd_imp_le)
  moreover from assms have "e \<noteq> 0" by (auto simp: dvd_def)
  ultimately show ?thesis using assms by (auto simp: view_len_def)
qed

lemma view_len_record:
  assumes "0 < n" and "e dvd n"
  shows "view_len e (n div e) n = Inr 1"
proof -
  from assms have le: "e \<le> n" by (simp add: dvd_imp_le)
  from assms have "n div e * e = n" by simp
  with assms le show ?thesis by (auto simp: view_len_def)
qed

text \<open>
  C1, as the code has it. \<open>_nativize\<close> reads every leaf with \<open>.item()\<close>, which gives
  a scalar and raises for an array of more than one element; so the round trip holds for
  the spaces whose leaves are all scalars (shape \<open>()\<close>, as the \<open>Discrete\<close> leaves of an
  action space are). For such a space with at least one leaf, a sample that conforms to
  it, and a flat element type whose size divides the size of the packed record,
  \<open>nativize (emulate s)\<close> is \<open>s\<close>.
\<close>

theorem roundtrip_scalar_leaves:
  assumes ws: "well_sized enc"
    and cf: "conforms enc dec sp s"
    and sl: "scalar_leaves sp"
    and ne: "flatten_space sp \<noteq> []"
    and dk: "distinct_keys sp"
    and dv: "itemsize fd dvd dt_itemsize (dtype_from_space sp)"
  shows "\<exists>flat. emulate enc s fd (dtype_from_space sp) = Inr flat
           \<and> nativize dec flat sp (dtype_from_space sp) = Inr s"
proof -
  let ?dt = "dtype_from_space sp"
  let ?n = "dt_itemsize ?dt"
  let ?zeros = "replicate ?n (0::byte)"
  let ?r = "emulate' enc ?zeros 0 ?dt s"
  have pos: "0 < ?n" using sl ne by (rule scalar_leaves_itemsize_pos)
  have "writes_within ?zeros ?r 0 (0 + ?n) \<and> nativize' dec (fst ?r) 1 0 ?dt sp = Inr s"
    using ws cf sl dk by (rule roundtrip_rec(1)) simp
  then have ok: "snd ?r = None" and len: "length (fst ?r) = ?n"
    and nat: "nativize' dec (fst ?r) 1 0 ?dt sp = Inr s"
    by (simp_all add: writes_within_def)
  let ?k = "?n div itemsize fd"
  have k: "view_shape ?n [1] (itemsize fd) = Inr [?k]"
    using view_len_flat[OF pos dv] by (simp add: view_shape_def)
  have r: "?r = (fst ?r, None)" using ok by (cases ?r) simp
  have em: "emulate enc s fd ?dt = Inr (Array fd [?k] (fst ?r))"
    unfolding emulate_def Let_def scalar_leaves_zeros_shape(1)[OF sl] fst_conv snd_conv
    using k by (subst r) simp
  have "view_shape (itemsize fd) [?k] ?n = Inr [1]"
    using view_len_record[OF pos dv] by (simp add: view_shape_def)
  then have vr: "view_records (Array fd [?k] (fst ?r)) ?dt = Inr (1, fst ?r)"
    using scalar_leaves_zeros_shape(2)[OF sl] by simp
  have "nativize dec (Array fd [?k] (fst ?r)) sp ?dt = Inr s"
    unfolding nativize_def vr by (simp only: sum.case prod.case nat)
  with em show ?thesis by blast
qed

lemma well_sized_enc_int: "well_sized enc_int"
  by (simp add: well_sized_def enc_int_def)

theorem roundtrip_scalar_leaves_witness:
  "well_sized enc_int
   \<and> conforms enc_int dec_int
        (Dict [(''a'', Discrete 3), (''b'', Tuple [Box 0 9 [] Int8, Discrete 2])])
        (SDict [(''a'', SVal 2), (''b'', STuple [SVal (- 7), SVal 1])])
   \<and> scalar_leaves (Dict [(''a'', Discrete 3), (''b'', Tuple [Box 0 9 [] Int8, Discrete 2])])
   \<and> flatten_space (Dict [(''a'', Discrete 3), (''b'', Tuple [Box 0 9 [] Int8, Discrete 2])])
       \<noteq> []
   \<and> distinct_keys (Dict [(''a'', Discrete 3), (''b'', Tuple [Box 0 9 [] Int8, Discrete 2])])
   \<and> itemsize UInt8 dvd dt_itemsize (dtype_from_space
         (Dict [(''a'', Discrete 3), (''b'', Tuple [Box 0 9 [] Int8, Discrete 2])]))
   \<and> (\<exists>flat.
         emulate enc_int (SDict [(''a'', SVal 2), (''b'', STuple [SVal (- 7), SVal 1])]) UInt8
           (dtype_from_space
             (Dict [(''a'', Discrete 3), (''b'', Tuple [Box 0 9 [] Int8, Discrete 2])]))
           = Inr flat
         \<and> nativize dec_int flat
             (Dict [(''a'', Discrete 3), (''b'', Tuple [Box 0 9 [] Int8, Discrete 2])])
             (dtype_from_space
               (Dict [(''a'', Discrete 3), (''b'', Tuple [Box 0 9 [] Int8, Discrete 2])]))
           = Inr (SDict [(''a'', SVal 2), (''b'', STuple [SVal (- 7), SVal 1])]))"
proof -
  let ?sp = "Dict [(''a'', Discrete 3), (''b'', Tuple [Box 0 9 [] Int8, Discrete 2])]"
  let ?s = "SDict [(''a'', SVal 2), (''b'', STuple [SVal (- 7), SVal 1])]"
  have cf: "conforms enc_int dec_int ?sp ?s" by code_simp
  have sl: "scalar_leaves ?sp" by code_simp
  have ne: "flatten_space ?sp \<noteq> []" by simp
  have dk: "distinct_keys ?sp" by simp
  have dv: "itemsize UInt8 dvd dt_itemsize (dtype_from_space ?sp)" by simp
  from roundtrip_scalar_leaves[OF well_sized_enc_int cf sl ne dk dv]
  show ?thesis using well_sized_enc_int cf sl ne dk dv by blast
qed

text \<open>
  The claim as the specification states it fails on a leaf that is an array: a
  \<open>Tuple\<close> of one \<open>Box\<close> of shape \<open>(2,)\<close> and the sample \<open>(array([3, 7]),)\<close>, which
  conforms to it. \<open>emulate\<close> packs the sample, and \<open>nativize\<close> raises \<open>ValueError\<close>
  on the packed buffer, at \<open>.item()\<close>.
\<close>

theorem roundtrip_array_leaf_counterexample:
  "conforms enc_int dec_int (Tuple [Box 0 9 [2] Int32]) (STuple [SArr [2] [3, 7]])
   \<and> emulate enc_int (STuple [SArr [2] [3, 7]]) Int32
         (dtype_from_space (Tuple [Box 0 9 [2] Int32]))
       = Inr (Array Int32 [2] [3, 0, 0, 0, 7, 0, 0, 0])
   \<and> nativize dec_int (Array Int32 [2] [3, 0, 0, 0, 7, 0, 0, 0]) (Tuple [Box 0 9 [2] Int32])
         (dtype_from_space (Tuple [Box 0 9 [2] Int32]))
       = Inl ValueError"
  by code_simp

section \<open>The seeding fallback\<close>

text \<open>
  C9. For a seed that is not \<open>None\<close>, \<open>_seed_and_reset\<close> first calls the seeded reset and
  returns its result; when that raises, it calls \<open>seed\<close> and then the plain reset; when
  either of these raises, it calls the plain reset (again) and warns. Nothing else is
  called, in this order. It raises only what the plain reset of its last stage raised: an
  environment whose plain reset works always gets a result, with or without support for
  seeding.
\<close>

theorem seeding_fallback:
  "(\<forall>e1 r. reset_seeded ops e sd = (e1, Inr r) \<longrightarrow>
      seed_and_reset ops (e, tr) (Some sd) = ((e1, tr @ [CallResetSeeded sd]), Inr r))
   \<and> (\<forall>e1 x e2 e3 r.
        reset_seeded ops e sd = (e1, Inl x) \<and> seed_call ops e1 sd = (e2, Inr ())
        \<and> reset_plain ops e2 = (e3, Inr r) \<longrightarrow>
        seed_and_reset ops (e, tr) (Some sd) =
          ((e3, tr @ [CallResetSeeded sd, CallSeed sd, CallReset]), Inr r))
   \<and> (\<forall>e1 x e2 y e3 r.
        reset_seeded ops e sd = (e1, Inl x) \<and> seed_call ops e1 sd = (e2, Inl y)
        \<and> reset_plain ops e2 = (e3, Inr r) \<longrightarrow>
        seed_and_reset ops (e, tr) (Some sd) =
          ((e3, tr @ [CallResetSeeded sd, CallSeed sd, CallReset, CallWarn]), Inr r))
   \<and> (\<forall>e1 x e2 e3 z e4 r.
        reset_seeded ops e sd = (e1, Inl x) \<and> seed_call ops e1 sd = (e2, Inr ())
        \<and> reset_plain ops e2 = (e3, Inl z) \<and> reset_plain ops e3 = (e4, Inr r) \<longrightarrow>
        seed_and_reset ops (e, tr) (Some sd) =
          ((e4, tr @ [CallResetSeeded sd, CallSeed sd, CallReset, CallReset, CallWarn]), Inr r))
   \<and> (\<forall>w err. seed_and_reset ops (e, tr) (Some sd) = (w, Inl err) \<longrightarrow>
        (\<exists>e' e''. reset_plain ops e' = (e'', Inl err)))
   \<and> ((\<forall>e'. \<exists>e'' r. reset_plain ops e' = (e'', Inr r)) \<longrightarrow>
        (\<exists>w r. seed_and_reset ops (e, tr) (Some sd) = (w, Inr r)))"
proof (intro conjI allI impI)
  fix e1 r assume "reset_seeded ops e sd = (e1, Inr r)"
  then show "seed_and_reset ops (e, tr) (Some sd) = ((e1, tr @ [CallResetSeeded sd]), Inr r)"
    by (simp add: seed_and_reset_def do_reset_seeded_def)
next
  fix e1 x e2 e3 r
  assume "reset_seeded ops e sd = (e1, Inl x) \<and> seed_call ops e1 sd = (e2, Inr ())
        \<and> reset_plain ops e2 = (e3, Inr r)"
  then show "seed_and_reset ops (e, tr) (Some sd) =
          ((e3, tr @ [CallResetSeeded sd, CallSeed sd, CallReset]), Inr r)"
    by (simp add: seed_and_reset_def do_reset_seeded_def do_seed_def do_reset_def)
next
  fix e1 x e2 y e3 r
  assume "reset_seeded ops e sd = (e1, Inl x) \<and> seed_call ops e1 sd = (e2, Inl y)
        \<and> reset_plain ops e2 = (e3, Inr r)"
  then show "seed_and_reset ops (e, tr) (Some sd) =
          ((e3, tr @ [CallResetSeeded sd, CallSeed sd, CallReset, CallWarn]), Inr r)"
    by (simp add: seed_and_reset_def do_reset_seeded_def do_seed_def do_reset_def
        reset_and_warn_def)
next
  fix e1 x e2 e3 z e4 r
  assume "reset_seeded ops e sd = (e1, Inl x) \<and> seed_call ops e1 sd = (e2, Inr ())
        \<and> reset_plain ops e2 = (e3, Inl z) \<and> reset_plain ops e3 = (e4, Inr r)"
  then show "seed_and_reset ops (e, tr) (Some sd) =
          ((e4, tr @ [CallResetSeeded sd, CallSeed sd, CallReset, CallReset, CallWarn]), Inr r)"
    by (simp add: seed_and_reset_def do_reset_seeded_def do_seed_def do_reset_def
        reset_and_warn_def)
next
  fix w err assume "seed_and_reset ops (e, tr) (Some sd) = (w, Inl err)"
  then show "\<exists>e' e''. reset_plain ops e' = (e'', Inl err)"
    by (auto simp: seed_and_reset_def do_reset_seeded_def do_seed_def do_reset_def
        reset_and_warn_def split: prod.splits sum.splits)
next
  assume a: "\<forall>e'. \<exists>e'' r. reset_plain ops e' = (e'', Inr r)"
  show "\<exists>w r. seed_and_reset ops (e, tr) (Some sd) = (w, Inr r)"
  proof (cases "seed_and_reset ops (e, tr) (Some sd)")
    case (Pair w res)
    show ?thesis
    proof (cases res)
      case (Inl err)
      with Pair have "\<exists>e' e''. reset_plain ops e' = (e'', Inl err)"
        by (auto simp: seed_and_reset_def do_reset_seeded_def do_seed_def do_reset_def
            reset_and_warn_def split: prod.splits sum.splits)
      with a show ?thesis by (metis Pair_inject sum.distinct(1))
    next
      case (Inr r)
      with Pair show ?thesis by blast
    qed
  qed
qed

theorem seeding_fallback_witness:
  "reset_seeded legacy_env 5 7 = (5, Inl TypeError)
   \<and> seed_call legacy_env 5 7 = (5, Inl AttributeError)
   \<and> reset_plain legacy_env 5 = (0, Inr (SVal 0, ()))
   \<and> seed_and_reset legacy_env (5, []) (Some 7) =
       ((0, [CallResetSeeded 7, CallSeed 7, CallReset, CallWarn]), Inr (SVal 0, ()))"
proof -
  have h: "reset_seeded legacy_env 5 7 = (5, Inl TypeError)
      \<and> seed_call legacy_env 5 7 = (5, Inl AttributeError)
      \<and> reset_plain legacy_env 5 = (0, Inr (SVal 0, ()))"
    by (simp add: legacy_env_def)
  note t = seeding_fallback[of legacy_env 5 7 "[]", THEN conjunct2, THEN conjunct2,
      THEN conjunct1, rule_format, of 5 TypeError 5 AttributeError 0 "(SVal 0, ())"]
  from t[OF h] h show ?thesis by simp
qed

section \<open>The adapters' state machine\<close>

lemma Gymnasium_step_done:
  assumes "Gymnasium_step lib ops s a = (s', Inr (ob, r, dn, tr, info))"
  shows "g_done s' = dn"
  using assms unfolding Gymnasium_step_def
  by (auto split: if_splits sum.splits prod.splits option.splits)

lemma step_finish_all_done:
  assumes "step_finish lib ops s (obs, rewards, dones, truncateds, infos) = (s', Inr out)"
  shows "p_all_done s' = list_all snd dones"
  using assms unfolding step_finish_def
  by (auto simp: Let_def split: prod.splits option.splits)

text \<open>
  C4. In both adapters, \<open>step\<close> raises \<open>APIUsageError\<close> and leaves the adapter as it
  was (no attribute changed, the wrapped environment not called, no check made) when the
  adapter is not initialized, as it is when it comes from its constructor, or when it is
  done: after a single-agent step that returned \<open>done\<close>, and after a multi-agent step in
  which every done flag of the wrapped environment was true.
\<close>

theorem step_guards:
  "(\<not> g_initialized s \<or> g_done s \<longrightarrow>
      Gymnasium_step lib ops s action = (s, Inl APIUsageError))
   \<and> (\<forall>e s0. GymnasiumPufferEnv ops e = Inr s0 \<longrightarrow>
        Gymnasium_step lib ops s0 action = (s0, Inl APIUsageError))
   \<and> (\<forall>s' ob r tr info.
        Gymnasium_step lib ops s action = (s', Inr (ob, r, True, tr, info)) \<longrightarrow>
        Gymnasium_step lib ops s' action' = (s', Inl APIUsageError))
   \<and> (\<not> p_initialized t \<or> PettingZoo_done pops t \<longrightarrow>
        PettingZoo_step plib pops t actions = (t, Inl APIUsageError))
   \<and> (\<forall>e t0. PettingZooPufferEnv pops e = Inr t0 \<longrightarrow>
        PettingZoo_step plib pops t0 actions = (t0, Inl APIUsageError))
   \<and> (\<forall>t' obs rewards dones truncateds infos out.
        step_finish plib pops t (obs, rewards, dones, truncateds, infos) = (t', Inr out)
        \<and> list_all snd dones \<longrightarrow>
        PettingZoo_step plib pops t' actions' = (t', Inl APIUsageError))"
proof (intro conjI allI impI)
  assume "\<not> g_initialized s \<or> g_done s"
  then show "Gymnasium_step lib ops s action = (s, Inl APIUsageError)"
    by (auto simp: Gymnasium_step_def)
next
  fix e s0 assume "GymnasiumPufferEnv ops e = Inr s0"
  then have "\<not> g_initialized s0"
    by (auto simp: GymnasiumPufferEnv_def split: sum.splits prod.splits)
  then show "Gymnasium_step lib ops s0 action = (s0, Inl APIUsageError)"
    by (simp add: Gymnasium_step_def)
next
  fix s' ob r tr info
  assume "Gymnasium_step lib ops s action = (s', Inr (ob, r, True, tr, info))"
  then have "g_done s' = True" by (rule Gymnasium_step_done)
  then show "Gymnasium_step lib ops s' action' = (s', Inl APIUsageError)"
    by (simp add: Gymnasium_step_def)
next
  assume "\<not> p_initialized t \<or> PettingZoo_done pops t"
  then show "PettingZoo_step plib pops t actions = (t, Inl APIUsageError)"
    by (auto simp: PettingZoo_step_def)
next
  fix e t0 assume "PettingZooPufferEnv pops e = Inr t0"
  then have "\<not> p_initialized t0"
    by (auto simp: PettingZooPufferEnv_def split: sum.splits prod.splits list.splits)
  then show "PettingZoo_step plib pops t0 actions = (t0, Inl APIUsageError)"
    by (simp add: PettingZoo_step_def)
next
  fix t' obs rewards dones truncateds infos out
  assume a: "step_finish plib pops t (obs, rewards, dones, truncateds, infos) = (t', Inr out)
        \<and> list_all snd dones"
  from a[THEN conjunct1] have "p_all_done t' = list_all snd dones"
    by (rule step_finish_all_done)
  with a have "p_all_done t'" by simp
  then show "PettingZoo_step plib pops t' actions' = (t', Inl APIUsageError)"
    by (simp add: PettingZoo_step_def PettingZoo_done_def)
qed



theorem step_guards_witness:
  "Gymnasium_step int_lib legacy_env legacy_adapter legacy_action
     = (legacy_adapter, Inl APIUsageError)
   \<and> snd (Gymnasium_step int_lib legacy_env
           (gym_run int_lib legacy_env legacy_adapter [GReset None, GStep legacy_action])
           legacy_action)
       = Inr (Nd (Array Int64 [1] [2, 0, 0, 0, 0, 0, 0, 0]), 1, True, False, ())
   \<and> Gymnasium_step int_lib legacy_env
         (gym_run int_lib legacy_env legacy_adapter
            [GReset None, GStep legacy_action, GStep legacy_action]) legacy_action
       = (gym_run int_lib legacy_env legacy_adapter
            [GReset None, GStep legacy_action, GStep legacy_action], Inl APIUsageError)
   \<and> PettingZoo_step int_lib duo_env duo_adapter duo_actions
       = (duo_adapter, Inl APIUsageError)
   \<and> PettingZoo_done duo_env
         (pz_run int_lib duo_env duo_adapter [PReset None, PStep duo_actions, PStep duo_actions])
   \<and> PettingZoo_step int_lib duo_env
         (pz_run int_lib duo_env duo_adapter [PReset None, PStep duo_actions, PStep duo_actions])
         duo_actions
       = (pz_run int_lib duo_env duo_adapter [PReset None, PStep duo_actions, PStep duo_actions],
          Inl APIUsageError)
   \<and> snd (step_finish int_lib duo_env (pz_run int_lib duo_env duo_adapter [PReset None])
            ([(''a'', SArr [2] [2, 2])], [(''a'', 1)], [(''a'', True)], [(''a'', False)], ()))
       = Inr ([(''a'', Val (SArr [2] [2, 2])), (''b'', Val (SArr [2] [0, 0]))],
              [(''a'', 1), (''b'', 0)], [(''a'', True), (''b'', False)],
              [(''a'', False), (''b'', False)], ())
   \<and> PettingZoo_step int_lib duo_env
         (fst (step_finish int_lib duo_env (pz_run int_lib duo_env duo_adapter [PReset None])
            ([(''a'', SArr [2] [2, 2])], [(''a'', 1)], [(''a'', True)], [(''a'', False)], ())))
         duo_actions
       = (fst (step_finish int_lib duo_env (pz_run int_lib duo_env duo_adapter [PReset None])
            ([(''a'', SArr [2] [2, 2])], [(''a'', 1)], [(''a'', True)], [(''a'', False)], ())),
          Inl APIUsageError)"
proof -
  let ?p1 = "pz_run int_lib duo_env duo_adapter [PReset None]"
  let ?ans = "([(''a'', SArr [2] [2, 2])], [(''a'', 1::real)], [(''a'', True)], [(''a'', False)], ())"
  let ?out = "([(''a'', Val (SArr [2] [2, 2])), (''b'', Val (SArr [2] [0, 0]))],
              [(''a'', 1::real), (''b'', 0)], [(''a'', True), (''b'', False)],
              [(''a'', False), (''b'', False)], ())"
  have f1: "snd (step_finish int_lib duo_env ?p1 ?ans) = Inr ?out" by code_simp
  then have f2: "step_finish int_lib duo_env ?p1 ?ans
      = (fst (step_finish int_lib duo_env ?p1 ?ans), Inr ?out) \<and> list_all snd [(''a'', True)]"
    by (simp add: prod_eq_iff)
  let ?g0 = legacy_adapter
  let ?g2 = "gym_run int_lib legacy_env legacy_adapter [GReset None, GStep legacy_action]"
  let ?g3 = "gym_run int_lib legacy_env legacy_adapter
      [GReset None, GStep legacy_action, GStep legacy_action]"
  let ?p0 = duo_adapter
  let ?p3 = "pz_run int_lib duo_env duo_adapter [PReset None, PStep duo_actions, PStep duo_actions]"
  note g = step_guards[where lib = int_lib and ops = legacy_env and action = legacy_action
      and action' = legacy_action and plib = int_lib and pops = duo_env
      and actions = duo_actions and actions' = duo_actions]
  have c0: "GymnasiumPufferEnv legacy_env 0 = Inr ?g0"
    by (simp add: legacy_adapter_def constructed_def GymnasiumPufferEnv_def legacy_env_def)
  have r2: "snd (Gymnasium_step int_lib legacy_env ?g2 legacy_action)
      = Inr (Nd (Array Int64 [1] [2, 0, 0, 0, 0, 0, 0, 0]), 1, True, False, ())"
    by code_simp
  have g3: "?g3 = fst (Gymnasium_step int_lib legacy_env ?g2 legacy_action)"
    by (simp add: gym_run_def gym_exec_def)
  have s2: "Gymnasium_step int_lib legacy_env ?g2 legacy_action
      = (?g3, Inr (Nd (Array Int64 [1] [2, 0, 0, 0, 0, 0, 0, 0]), 1, True, False, ()))"
    unfolding g3 using r2 by (simp add: prod_eq_iff)
  have c1: "PettingZooPufferEnv duo_env 0 = Inr ?p0"
    by (simp add: duo_adapter_def constructed_def PettingZooPufferEnv_def duo_env_def)
  have d3: "PettingZoo_done duo_env ?p3" by code_simp
  from g[of ?g2 ?p3, THEN conjunct2, THEN conjunct1, rule_format, OF c0]
  have w1: "Gymnasium_step int_lib legacy_env ?g0 legacy_action = (?g0, Inl APIUsageError)" .
  from g[of ?g2 ?p3, THEN conjunct2, THEN conjunct2, THEN conjunct1, rule_format, OF s2]
  have w2: "Gymnasium_step int_lib legacy_env ?g3 legacy_action = (?g3, Inl APIUsageError)" .
  from g[of ?g2 ?p3, THEN conjunct2, THEN conjunct2, THEN conjunct2, THEN conjunct2,
      THEN conjunct1, rule_format, OF c1]
  have w3: "PettingZoo_step int_lib duo_env ?p0 duo_actions = (?p0, Inl APIUsageError)" .
  from g[of ?g2 ?p3, THEN conjunct2, THEN conjunct2, THEN conjunct2, THEN conjunct1,
      rule_format] d3
  have w4: "PettingZoo_step int_lib duo_env ?p3 duo_actions = (?p3, Inl APIUsageError)"
    by simp
  from g[of ?g2 ?p1, THEN conjunct2, THEN conjunct2, THEN conjunct2, THEN conjunct2,
      THEN conjunct2, rule_format, OF f2]
  have w5: "PettingZoo_step int_lib duo_env (fst (step_finish int_lib duo_env ?p1 ?ans)) duo_actions
      = (fst (step_finish int_lib duo_env ?p1 ?ans), Inl APIUsageError)" .
  from w1 r2 w2 w3 d3 w4 f1 w5 show ?thesis by (simp only: simp_thms)
qed

section \<open>The multi-agent adapter\<close>

lemma map_of_dict_set: "map_of (dict_set d k x) = (map_of d)(k \<mapsto> x)"
  by (induction d) (auto simp: fun_eq_iff)

lemma keys_dict_set: "fst ` set (dict_set d k x) = insert k (fst ` set d)"
  by (induction d) auto

lemma map_of_fold_dict_set:
  "map_of (foldl (\<lambda>d k. dict_set d k (f k)) acc ks) a =
     (if a \<in> set ks then Some (f a) else map_of acc a)"
  by (induction ks arbitrary: acc) (simp_all add: map_of_dict_set)

lemma keys_fold_dict_set:
  "fst ` set (foldl (\<lambda>d k. dict_set d k (f k)) acc ks) = set ks \<union> fst ` set acc"
  by (induction ks arbitrary: acc) (simp_all add: keys_dict_set)

lemma map_of_pad_agent_data:
  "map_of (pad_agent_data data agents pad_value) a =
     (if a \<in> set agents
      then Some (case map_of data a of Some x \<Rightarrow> x | None \<Rightarrow> pad_value) else None)"
  unfolding pad_agent_data_def by (simp add: map_of_fold_dict_set)

lemma keys_pad_agent_data: "fst ` set (pad_agent_data data agents pad_value) = set agents"
  unfolding pad_agent_data_def by (simp add: keys_fold_dict_set)

lemma p_store_obs_fields [simp]:
  "p_env (p_store_obs s a) = p_env s"
  "p_all_done (p_store_obs s a) = p_all_done s"
  "p_calls (p_store_obs s a) = p_calls s"
  "p_initialized (p_store_obs s a) = p_initialized s"
  "p_is_observation_checked (p_store_obs s a) = p_is_observation_checked s"
  "p_is_action_checked (p_store_obs s a) = p_is_action_checked s"
  "p_single_observation_space (p_store_obs s a) = p_single_observation_space s"
  "p_single_action_space (p_store_obs s a) = p_single_action_space s"
  by (simp_all add: p_store_obs_def split: option.splits)

lemma same_control_refl [simp]: "same_control s s"
  by (simp add: same_control_def)

lemma same_control_trans: "same_control s s1 \<Longrightarrow> same_control s1 s2 \<Longrightarrow> same_control s s2"
  by (simp add: same_control_def)

lemma p_assign_row_control: "same_control s (fst (p_assign_row lib s i v))"
  by (simp add: p_assign_row_def same_control_def split: sum.splits)

lemma PettingZoo_emulate_control: "same_control s (fst (PettingZoo_emulate lib s ob i agent))"
proof (cases "p_is_obs_emulated s")
  case True
  then show ?thesis
    by (auto simp: PettingZoo_emulate_def same_control_def
        split: option.splits sum.splits ndarray.splits prod.splits)
next
  case False
  show ?thesis
  proof (cases "p_mem s")
    case None
    with False show ?thesis
      by (auto simp: PettingZoo_emulate_def same_control_def split: option.splits)
  next
    case (Some m)
    with False have "PettingZoo_emulate lib s ob i agent = p_assign_row lib s i ob"
      by (simp add: PettingZoo_emulate_def)
    then show ?thesis by (simp add: p_assign_row_control)
  qed
qed

lemma reset_loop_control: "same_control s (fst (reset_loop lib obs s i agents))"
proof (induction agents arbitrary: s i)
  case Nil
  show ?case by simp
next
  case (Cons agent agents)
  show ?case
  proof (cases "map_of obs agent")
    case None
    then show ?thesis by simp
  next
    case (Some ob)
    let ?r = "PettingZoo_emulate lib s ob i agent"
    have c1: "same_control s (fst ?r)" by (rule PettingZoo_emulate_control)
    show ?thesis
    proof (cases "snd ?r")
      case (Some e)
      with \<open>map_of obs agent = Some ob\<close> c1 show ?thesis
        by (cases ?r) simp
    next
      case None
      show ?thesis
      proof (cases "p_mask (fst ?r)")
        case n: None
        with None \<open>map_of obs agent = Some ob\<close> c1 show ?thesis
          by (cases ?r) simp
      next
        case (Some msk)
        let ?s1 = "(fst ?r)\<lparr>p_mask := Some (dict_set msk agent True)\<rparr>"
        have "same_control s ?s1" using c1 by (simp add: same_control_def)
        from same_control_trans[OF this Cons.IH[of ?s1 "Suc i"]]
        show ?thesis using None Some \<open>map_of obs agent = Some ob\<close>
          by (cases ?r) simp
      qed
    qed
  qed
qed

lemma mem_update_control: "same_control s (s\<lparr>p_mem := m\<rparr>)"
  by (simp add: same_control_def)

lemma mask_update_control: "same_control s (s\<lparr>p_mask := m\<rparr>)"
  by (simp add: same_control_def)

lemma step_loop_control:
  "same_control s (fst (step_loop lib obs rewards dones truncateds s i agents))"
proof (induction agents arbitrary: s i)
  case Nil
  show ?case by simp
next
  case (Cons agent agents)
  show ?case
  proof (cases "map_of obs agent")
    case None
    let ?r = "p_assign_row lib s i (SVal 0)"
    have c1: "same_control s (fst ?r)" by (rule p_assign_row_control)
    show ?thesis
    proof (cases "snd ?r")
      case (Some e)
      with None c1 show ?thesis by (cases ?r) simp
    next
      case n: None
      from same_control_trans[OF c1 Cons.IH[of "fst ?r" "Suc i"]]
      show ?thesis using None n by (cases ?r) simp
    qed
  next
    case (Some ob)
    show ?thesis
    proof (cases "p_mask s")
      case None
      with Some show ?thesis by simp
    next
      case m: (Some msk)
      let ?s0 = "s\<lparr>p_mask := Some (dict_set msk agent True)\<rparr>"
      let ?r = "PettingZoo_emulate lib ?s0 ob i agent"
      have c0: "same_control s ?s0" by (rule mask_update_control)
      have c1: "same_control s (fst ?r)"
        using same_control_trans[OF c0 PettingZoo_emulate_control] .
      show ?thesis
      proof (cases "snd ?r")
        case e: (Some e)
        with Some m c1 show ?thesis by (cases ?r) simp
      next
        case None
        show ?thesis
        proof (cases "p_mem (fst ?r)")
          case n: None
          from same_control_trans[OF c1 Cons.IH[of "fst ?r" "Suc i"]]
          show ?thesis using Some m None n by (cases ?r) simp
        next
          case mm: (Some mem0)
          let ?q = "mem_record_agent mem0 i agent rewards dones truncateds"
          let ?s2 = "(fst ?r)\<lparr>p_mem := Some (fst ?q)\<rparr>"
          have c2: "same_control s ?s2"
            using same_control_trans[OF c1 mem_update_control] .
          show ?thesis
          proof (cases "snd ?q")
            case e: (Some e)
            with Some m None mm c2 show ?thesis by (cases ?r; cases ?q) simp
          next
            case q: None
            from same_control_trans[OF c2 Cons.IH[of ?s2 "Suc i"]]
            show ?thesis using Some m None mm q by (cases ?r; cases ?q) simp
          qed
        qed
      qed
    qed
  qed
qed

lemma step_check_env: "p_env (fst (step_check lib s acts)) = p_env s"
  by (auto simp: step_check_def check_space_def split: list.splits sum.splits)

lemma step_finish_result:
  assumes "step_finish lib ops s (obs, rewards, dones, truncateds, infos) = (s', Inr out)"
  shows "out = (read_dict_obs (fst (step_loop lib obs rewards dones truncateds
                   (s\<lparr>p_mask := Some (dict_from_keys (pz_possible_agents ops (p_env s)) False)\<rparr>)
                   0 (pz_possible_agents ops (p_env s)))),
                pad_agent_data rewards (pz_possible_agents ops (p_env s)) 0,
                pad_agent_data dones (pz_possible_agents ops (p_env s)) False,
                pad_agent_data truncateds (pz_possible_agents ops (p_env s)) False, infos)"
    and "p_env s' = p_env s"
    and "p_all_done s' = list_all snd dones"
proof -
  let ?s0 = "s\<lparr>p_mask := Some (dict_from_keys (pz_possible_agents ops (p_env s)) False)\<rparr>"
  let ?r = "step_loop lib obs rewards dones truncateds ?s0 0 (pz_possible_agents ops (p_env s))"
  have c: "same_control s (fst ?r)"
    using same_control_trans[OF mask_update_control step_loop_control] .
  from assms have ok: "snd ?r = None"
    by (cases ?r) (auto simp: step_finish_def Let_def split: option.splits)
  with assms have s': "s' = (fst ?r)\<lparr>p_all_done := list_all snd dones\<rparr>"
    by (cases ?r) (auto simp: step_finish_def Let_def)
  from assms ok show "out = (read_dict_obs (fst ?r),
                pad_agent_data rewards (pz_possible_agents ops (p_env s)) 0,
                pad_agent_data dones (pz_possible_agents ops (p_env s)) False,
                pad_agent_data truncateds (pz_possible_agents ops (p_env s)) False, infos)"
    by (cases ?r) (auto simp: step_finish_def Let_def)
  from c s' show "p_env s' = p_env s" by (simp add: same_control_def)
  from s' show "p_all_done s' = list_all snd dones" by simp
qed

text \<open>A successful step went through the wrapped environment and \<open>step_finish\<close>.\<close>

lemma PettingZoo_step_success:
  assumes "PettingZoo_step lib ops s actions = (s', Inr out)"
  shows "\<exists>s1 unpacked e' answer.
           p_env s1 = p_env s
           \<and> pz_step_call ops (p_env s) unpacked = (e', Inr answer)
           \<and> step_finish lib ops
                (s1\<lparr>p_env := e', p_calls := p_calls s1 @ [CallStepAgents unpacked]\<rparr>) answer
               = (s', Inr out)"
proof -
  from assms have g: "p_initialized s" "\<not> PettingZoo_done ops s"
    by (auto simp: PettingZoo_step_def split: if_splits)
  let ?acts = "case actions of
                   ActArray a \<Rightarrow> actions_from_array a [] 0 (pz_possible_agents ops (p_env s))
                 | ActDict d \<Rightarrow> Inr d"
  from assms g obtain acts where acts: "?acts = Inr acts"
    by (cases ?acts) (auto simp: PettingZoo_step_def)
  let ?c = "step_check lib s acts"
  from assms g acts have c: "snd ?c = None"
    by (cases ?c) (auto simp: PettingZoo_step_def split: option.splits)
  let ?s1 = "fst ?c"
  from assms g acts c obtain unpacked where u: "unpack_actions lib ops ?s1 [] acts = Inr unpacked"
    by (cases ?c; cases "unpack_actions lib ops ?s1 [] acts") (auto simp: PettingZoo_step_def)
  obtain e' res where call: "pz_step_call ops (p_env ?s1) unpacked = (e', res)"
    by (cases "pz_step_call ops (p_env ?s1) unpacked")
  from assms g acts c u call obtain answer where a: "res = Inr answer"
    by (cases ?c; cases res) (auto simp: PettingZoo_step_def)
  from assms g acts c u call a
  have "step_finish lib ops
          (?s1\<lparr>p_env := e', p_calls := p_calls ?s1 @ [CallStepAgents unpacked]\<rparr>) answer
        = (s', Inr out)"
    by (cases ?c) (auto simp: PettingZoo_step_def)
  with call a step_check_env[of lib s acts]
  have "p_env ?s1 = p_env s
      \<and> pz_step_call ops (p_env s) unpacked = (e', Inr answer)
      \<and> step_finish lib ops
          (?s1\<lparr>p_env := e', p_calls := p_calls ?s1 @ [CallStepAgents unpacked]\<rparr>) answer
        = (s', Inr out)" by simp
  then show ?thesis by blast
qed

text \<open>
  C5. After every multi-agent step that returns, the rewards, the done flags and the
  truncated flags it returns are keyed by the possible agents of the wrapped environment,
  all of them and no other; an agent the environment's own result has no entry for gets
  the default (reward 0, done false, truncated false), and every other agent the value
  the environment gave.
\<close>

theorem multi_agent_padding:
  assumes "PettingZoo_step lib ops s actions = (s', Inr (dobs, R, D, T, infos))"
  shows "fst ` set R = set (pz_possible_agents ops (p_env s'))
     \<and> fst ` set D = set (pz_possible_agents ops (p_env s'))
     \<and> fst ` set T = set (pz_possible_agents ops (p_env s'))
     \<and> (\<exists>unpacked obs rewards dones truncateds.
           pz_step_call ops (p_env s) unpacked =
             (p_env s', Inr (obs, rewards, dones, truncateds, infos))
           \<and> (\<forall>a\<in>set (pz_possible_agents ops (p_env s')).
                 map_of R a = Some (case map_of rewards a of Some x \<Rightarrow> x | None \<Rightarrow> 0)
                 \<and> map_of D a = Some (case map_of dones a of Some x \<Rightarrow> x | None \<Rightarrow> False)
                 \<and> map_of T a =
                     Some (case map_of truncateds a of Some x \<Rightarrow> x | None \<Rightarrow> False)))"
proof -
  from PettingZoo_step_success[OF assms] obtain s1 unpacked e' answer where
    env: "p_env s1 = p_env s"
    and call: "pz_step_call ops (p_env s) unpacked = (e', Inr answer)"
    and fin: "step_finish lib ops
        (s1\<lparr>p_env := e', p_calls := p_calls s1 @ [CallStepAgents unpacked]\<rparr>) answer
        = (s', Inr (dobs, R, D, T, infos))"
    by blast
  obtain obs rewards dones truncateds infos' where
    answer: "answer = (obs, rewards, dones, truncateds, infos')"
    by (cases answer) auto
  let ?s1 = "s1\<lparr>p_env := e', p_calls := p_calls s1 @ [CallStepAgents unpacked]\<rparr>"
  from step_finish_result(2)[OF fin[unfolded answer]] have e': "p_env s' = e'" by simp
  from step_finish_result(1)[OF fin[unfolded answer]]
  have R: "R = pad_agent_data rewards (pz_possible_agents ops (p_env s')) 0"
    and D: "D = pad_agent_data dones (pz_possible_agents ops (p_env s')) False"
    and T: "T = pad_agent_data truncateds (pz_possible_agents ops (p_env s')) False"
    and i: "infos = infos'"
    by (simp_all add: e')
  have "pz_step_call ops (p_env s) unpacked =
             (p_env s', Inr (obs, rewards, dones, truncateds, infos))
           \<and> (\<forall>a\<in>set (pz_possible_agents ops (p_env s')).
                 map_of R a = Some (case map_of rewards a of Some x \<Rightarrow> x | None \<Rightarrow> 0)
                 \<and> map_of D a = Some (case map_of dones a of Some x \<Rightarrow> x | None \<Rightarrow> False)
                 \<and> map_of T a =
                     Some (case map_of truncateds a of Some x \<Rightarrow> x | None \<Rightarrow> False))"
    using call by (simp add: answer e' i R D T map_of_pad_agent_data)
  then show ?thesis
    unfolding R D T by (simp only: keys_pad_agent_data simp_thms) blast
qed


theorem multi_agent_padding_witness:
  "snd (PettingZoo_step int_lib duo_env (pz_run int_lib duo_env duo_adapter [PReset None])
          duo_actions)
     = Inr ([(''a'', Val (SArr [2] [1, 1])), (''b'', Val (SArr [2] [0, 0]))],
            [(''a'', 1), (''b'', 0)], [(''a'', False), (''b'', False)],
            [(''a'', False), (''b'', False)], ())
   \<and> fst ` set [(''a'', 1::real), (''b'', 0)] =
       set (pz_possible_agents duo_env
             (p_env (fst (PettingZoo_step int_lib duo_env
                (pz_run int_lib duo_env duo_adapter [PReset None]) duo_actions))))
   \<and> map_of [(''a'', 1::real), (''b'', 0)] ''b'' = Some 0"
proof -
  let ?s = "pz_run int_lib duo_env duo_adapter [PReset None]"
  let ?r = "PettingZoo_step int_lib duo_env ?s duo_actions"
  have r: "snd ?r
     = Inr ([(''a'', Val (SArr [2] [1, 1])), (''b'', Val (SArr [2] [0, 0]))],
            [(''a'', 1), (''b'', 0)], [(''a'', False), (''b'', False)],
            [(''a'', False), (''b'', False)], ())"
    by code_simp
  then have "?r = (fst ?r,
      Inr ([(''a'', Val (SArr [2] [1, 1])), (''b'', Val (SArr [2] [0, 0]))],
            [(''a'', 1), (''b'', 0)], [(''a'', False), (''b'', False)],
            [(''a'', False), (''b'', False)], ()))"
    by (simp add: prod_eq_iff)
  from multi_agent_padding[OF this] r show ?thesis by simp
qed

lemma reset_check_control:
  "p_env (fst (reset_check lib ops s)) = p_env s"
  "p_all_done (fst (reset_check lib ops s)) = p_all_done s"
  by (auto simp: reset_check_def check_space_def split: list.splits option.splits sum.splits)

lemma PettingZoo_reset_success:
  assumes "PettingZoo_reset lib ops s seed = (s', Inr out)"
  shows "\<not> p_all_done s'"
proof -
  let ?i = "if \<not> p_initialized s then PettingZoo_setup ops s else (s, None)"
  from assms have i: "snd ?i = None"
    by (cases ?i) (auto simp: PettingZoo_reset_def split: option.splits)
  let ?s2 = "(fst ?i)\<lparr>p_initialized := True, p_all_done := False,
      p_mask := Some (dict_from_keys (pz_possible_agents ops (p_env (fst ?i))) False)\<rparr>"
  obtain e' res where call: "pz_reset_call ops (p_env ?s2) seed = (e', res)"
    by (cases "pz_reset_call ops (p_env ?s2) seed")
  from assms i call obtain obs info where res: "res = Inr (obs, info)"
    by (cases ?i; cases res) (auto simp: PettingZoo_reset_def Let_def)
  let ?s2' = "?s2\<lparr>p_env := e', p_calls := p_calls ?s2 @ [CallResetAgents seed]\<rparr>"
  let ?l = "reset_loop lib obs ?s2' 0 (pz_possible_agents ops e')"
  from assms i call res have l: "snd ?l = None"
    by (cases ?i; cases ?l) (auto simp: PettingZoo_reset_def Let_def split: option.splits)
  let ?c = "reset_check lib ops (fst ?l)"
  from assms i call res l have s': "s' = fst ?c"
    by (cases ?i; cases ?l; cases ?c)
       (auto simp: PettingZoo_reset_def Let_def split: option.splits)
  have "same_control ?s2' (fst ?l)" by (rule reset_loop_control)
  then have "\<not> p_all_done (fst ?l)" by (simp add: same_control_def)
  then show ?thesis unfolding s' by (simp add: reset_check_control)
qed

text \<open>
  C8, as the code has it. After every reset that returns, the adapter is done exactly
  when the wrapped environment lists no active agent. After every step that returns, it
  is done exactly when the environment lists no active agent or every done flag in the
  environment's result of that step is true, whichever agents the flags are for.
\<close>

theorem multi_agent_done:
  "(\<forall>s' out. PettingZoo_reset lib ops s seed = (s', Inr out) \<longrightarrow>
      (PettingZoo_done ops s' \<longleftrightarrow> length (pz_agents ops (p_env s')) = 0))
   \<and> (\<forall>s' out. PettingZoo_step lib ops s actions = (s', Inr out) \<longrightarrow>
        (\<exists>unpacked obs rewards dones truncateds infos.
           pz_step_call ops (p_env s) unpacked =
             (p_env s', Inr (obs, rewards, dones, truncateds, infos))
           \<and> (PettingZoo_done ops s' \<longleftrightarrow>
                length (pz_agents ops (p_env s')) = 0 \<or> list_all snd dones)))"
proof (intro conjI allI impI)
  fix s' out assume "PettingZoo_reset lib ops s seed = (s', Inr out)"
  then have "\<not> p_all_done s'" by (rule PettingZoo_reset_success)
  then show "PettingZoo_done ops s' \<longleftrightarrow> length (pz_agents ops (p_env s')) = 0"
    by (simp add: PettingZoo_done_def)
next
  fix s' out assume a: "PettingZoo_step lib ops s actions = (s', Inr out)"
  from PettingZoo_step_success[OF a] obtain s1 unpacked e' answer where
    call: "pz_step_call ops (p_env s) unpacked = (e', Inr answer)"
    and fin: "step_finish lib ops
        (s1\<lparr>p_env := e', p_calls := p_calls s1 @ [CallStepAgents unpacked]\<rparr>) answer
        = (s', Inr out)"
    by blast
  obtain obs rewards dones truncateds infos where
    answer: "answer = (obs, rewards, dones, truncateds, infos)"
    by (cases answer) auto
  from step_finish_result(2,3)[OF fin[unfolded answer]]
  have "p_env s' = e'" and "p_all_done s' = list_all snd dones" by simp_all
  with call answer
  have "pz_step_call ops (p_env s) unpacked =
             (p_env s', Inr (obs, rewards, dones, truncateds, infos))
           \<and> (PettingZoo_done ops s' \<longleftrightarrow>
                length (pz_agents ops (p_env s')) = 0 \<or> list_all snd dones)"
    by (simp add: PettingZoo_done_def)
  then show "\<exists>unpacked obs rewards dones truncateds infos.
           pz_step_call ops (p_env s) unpacked =
             (p_env s', Inr (obs, rewards, dones, truncateds, infos))
           \<and> (PettingZoo_done ops s' \<longleftrightarrow>
                length (pz_agents ops (p_env s')) = 0 \<or> list_all snd dones)"
    by blast
qed



theorem multi_agent_done_witness:
  "snd (PettingZoo_reset int_lib duo_env duo_adapter None)
     = Inr ([(''a'', Val (SArr [2] [0, 0])), (''b'', Val (SArr [2] [0, 0]))], ())
   \<and> pz_agents duo_env (p_env (fst (PettingZoo_reset int_lib duo_env duo_adapter None)))
       = [''a'', ''b'']
   \<and> PettingZoo_done duo_env (fst (PettingZoo_reset int_lib duo_env duo_adapter None)) = False
   \<and> snd (PettingZoo_step int_lib duo_env
            (pz_run int_lib duo_env duo_adapter [PReset None, PStep duo_actions]) duo_actions)
       = Inr ([(''a'', Val (SArr [2] [2, 2])), (''b'', Val (SArr [2] [0, 0]))],
              [(''a'', 1), (''b'', 0)], [(''a'', True), (''b'', False)],
              [(''a'', False), (''b'', False)], ())
   \<and> PettingZoo_done duo_env
        (fst (PettingZoo_step int_lib duo_env
            (pz_run int_lib duo_env duo_adapter [PReset None, PStep duo_actions]) duo_actions))
       = True"
proof -
  let ?r = "PettingZoo_reset int_lib duo_env duo_adapter None"
  let ?s2 = "pz_run int_lib duo_env duo_adapter [PReset None, PStep duo_actions]"
  let ?q = "PettingZoo_step int_lib duo_env ?s2 duo_actions"
  note t = multi_agent_done[where lib = int_lib and ops = duo_env and s = duo_adapter
      and seed = None]
  note u = multi_agent_done[where lib = int_lib and ops = duo_env and s = ?s2
      and actions = duo_actions]
  have r: "snd ?r = Inr ([(''a'', Val (SArr [2] [0, 0])), (''b'', Val (SArr [2] [0, 0]))], ())"
    by code_simp
  then have r': "?r = (fst ?r,
      Inr ([(''a'', Val (SArr [2] [0, 0])), (''b'', Val (SArr [2] [0, 0]))], ()))"
    by (simp add: prod_eq_iff)
  have ag: "pz_agents duo_env (p_env (fst ?r)) = [''a'', ''b'']" by code_simp
  from t[THEN conjunct1, rule_format, OF r'] ag
  have d1: "PettingZoo_done duo_env (fst ?r) = False" by simp
  have q: "snd ?q = Inr ([(''a'', Val (SArr [2] [2, 2])), (''b'', Val (SArr [2] [0, 0]))],
              [(''a'', 1), (''b'', 0)], [(''a'', True), (''b'', False)],
              [(''a'', False), (''b'', False)], ())"
    by code_simp
  then have q': "?q = (fst ?q,
      Inr ([(''a'', Val (SArr [2] [2, 2])), (''b'', Val (SArr [2] [0, 0]))],
              [(''a'', 1), (''b'', 0)], [(''a'', True), (''b'', False)],
              [(''a'', False), (''b'', False)], ()))"
    by (simp add: prod_eq_iff)
  have ag2: "pz_agents duo_env (p_env (fst ?q)) = []" by code_simp
  from u[THEN conjunct2, rule_format, OF q'] ag2
  have d2: "PettingZoo_done duo_env (fst ?q) = True" by auto
  from r ag d1 q d2 show ?thesis by (simp only: simp_thms)
qed

text \<open>
  The claim as the specification states it fails where the done flags of the wrapped
  environment are not those of its active agents. After the first step of the example,
  the only active agent is \<open>a\<close> and \<open>a\<close> is done, so that every active agent is done;
  the adapter is not done, because the environment also reported \<open>b\<close>, not done.
\<close>

theorem multi_agent_done_counterexample:
  "snd (PettingZoo_step int_lib stale_env
          (pz_run int_lib stale_env stale_adapter [PReset None]) duo_actions)
     = Inr ([(''a'', Val (SArr [2] [1, 1])), (''b'', Val (SArr [2] [0, 0]))],
            [(''a'', 1), (''b'', 0)], [(''a'', True), (''b'', False)],
            [(''a'', False), (''b'', False)], ())
   \<and> pz_agents stale_env
        (p_env (fst (PettingZoo_step int_lib stale_env
           (pz_run int_lib stale_env stale_adapter [PReset None]) duo_actions)))
       = [''a'']
   \<and> active_agents_done [''a''] [(''a'', True), (''b'', False)]
   \<and> \<not> PettingZoo_done stale_env
        (fst (PettingZoo_step int_lib stale_env
           (pz_run int_lib stale_env stale_adapter [PReset None]) duo_actions))"
  by code_simp

section \<open>The reset of the multi-agent adapter, and the checks\<close>

text \<open>
  C6. The reset of the multi-agent adapter does not survive an absent agent: the
  two-agent example whose environment starts with \<open>a\<close> alone. The mask of every possible
  agent is set to false first, the observation of \<open>a\<close> is stored and its mask set; at
  \<open>b\<close> the statement \<open>self.observation[i] = 0\<close> raises \<open>AttributeError\<close>, where \<open>step\<close>
  has \<open>self.obs[i] = 0\<close>.
\<close>

theorem reset_absent_agent_raises:
  "pz_possible_agents late_env 0 = [''a'', ''b'']
   \<and> pz_reset_call late_env 0 None = (0, Inr ([(''a'', SArr [2] [0, 0])], ()))
   \<and> snd (PettingZoo_reset int_lib late_env late_adapter None) = Inl AttributeError
   \<and> p_mask (fst (PettingZoo_reset int_lib late_env late_adapter None))
       = Some [(''a'', True), (''b'', False)]"
  by code_simp

lemma g_store_obs_fields [simp]:
  "g_env (g_store_obs s a) = g_env s"
  "g_calls (g_store_obs s a) = g_calls s"
  "g_initialized (g_store_obs s a) = g_initialized s"
  "g_done (g_store_obs s a) = g_done s"
  "g_is_observation_checked (g_store_obs s a) = g_is_observation_checked s"
  "g_is_action_checked (g_store_obs s a) = g_is_action_checked s"
  "g_observation_space (g_store_obs s a) = g_observation_space s"
  "g_action_space (g_store_obs s a) = g_action_space s"
  "g_atn_dtype (g_store_obs s a) = g_atn_dtype s"
  by (simp_all add: g_store_obs_def split: option.splits)

lemma Gymnasium_emulate_fields [simp]:
  "g_env (fst (Gymnasium_emulate lib s ob)) = g_env s"
  "g_calls (fst (Gymnasium_emulate lib s ob)) = g_calls s"
  "g_initialized (fst (Gymnasium_emulate lib s ob)) = g_initialized s"
  "g_done (fst (Gymnasium_emulate lib s ob)) = g_done s"
  "g_is_observation_checked (fst (Gymnasium_emulate lib s ob)) = g_is_observation_checked s"
  "g_is_action_checked (fst (Gymnasium_emulate lib s ob)) = g_is_action_checked s"
  "g_observation_space (fst (Gymnasium_emulate lib s ob)) = g_observation_space s"
  "g_action_space (fst (Gymnasium_emulate lib s ob)) = g_action_space s"
  "g_atn_dtype (fst (Gymnasium_emulate lib s ob)) = g_atn_dtype s"
  by (auto simp: Gymnasium_emulate_def split: sum.splits ndarray.splits prod.splits)

lemma check_space_calls:
  "fst (check_space lib calls data sp) = calls @ [CallContains sp data]"
  by (simp add: check_space_def)

lemma check_space_result:
  "snd (check_space lib calls data sp) =
     (if contains lib sp data = Inr True then Inr True else Inl APIUsageError)"
  by (auto simp: check_space_def split: sum.splits)

lemma Gymnasium_setup_fields [simp]:
  "g_env (fst (Gymnasium_setup s)) = g_env s"
  "g_calls (fst (Gymnasium_setup s)) = g_calls s"
  "g_is_observation_checked (fst (Gymnasium_setup s)) = g_is_observation_checked s"
  "g_is_action_checked (fst (Gymnasium_setup s)) = g_is_action_checked s"
  "g_observation_space (fst (Gymnasium_setup s)) = g_observation_space s"
  "g_action_space (fst (Gymnasium_setup s)) = g_action_space s"
  "g_atn_dtype (fst (Gymnasium_setup s)) = g_atn_dtype s"
  by (auto simp: Gymnasium_setup_def split: option.splits sum.splits)

lemma Gymnasium_emulate_keeps:
  assumes "Gymnasium_emulate lib s ob = (s', r)"
  shows "g_env s' = g_env s \<and> g_calls s' = g_calls s
    \<and> g_initialized s' = g_initialized s
    \<and> g_is_observation_checked s' = g_is_observation_checked s
    \<and> g_is_action_checked s' = g_is_action_checked s
    \<and> g_observation_space s' = g_observation_space s
    \<and> g_action_space s' = g_action_space s
    \<and> g_atn_dtype s' = g_atn_dtype s"
proof -
  have "s' = fst (Gymnasium_emulate lib s ob)" using assms by simp
  then show ?thesis by simp
qed

text \<open>The step of an adapter that is ready, once the action is unpacked.\<close>

lemma Gymnasium_step_unchecked:
  assumes "g_initialized s" and "\<not> g_done s" and "\<not> g_is_action_checked s"
    and n: "nativize (np_dec lib) action (env_action_space ops) (g_atn_dtype s) = Inr a"
  shows "contains lib (g_action_space s) (Val a) \<noteq> Inr True \<Longrightarrow>
      Gymnasium_step lib ops s action =
        (s\<lparr>g_calls := g_calls s @ [CallContains (g_action_space s) (Val a)]\<rparr>,
         Inl APIUsageError)"
    and "contains lib (g_action_space s) (Val a) = Inr True \<Longrightarrow>
      g_calls (fst (Gymnasium_step lib ops s action)) =
        g_calls s @ [CallContains (g_action_space s) (Val a), CallStep a]
      \<and> g_is_action_checked (fst (Gymnasium_step lib ops s action))"
proof -
  let ?c = "check_space lib (g_calls s) (Val a) (g_action_space s)"
  have c: "?c = (g_calls s @ [CallContains (g_action_space s) (Val a)],
      if contains lib (g_action_space s) (Val a) = Inr True then Inr True
      else Inl APIUsageError)"
    using check_space_calls[of lib "g_calls s" "Val a" "g_action_space s"]
      check_space_result[of lib "g_calls s" "Val a" "g_action_space s"]
    by (simp add: prod_eq_iff)
  {
    assume "contains lib (g_action_space s) (Val a) \<noteq> Inr True"
    then show "Gymnasium_step lib ops s action =
        (s\<lparr>g_calls := g_calls s @ [CallContains (g_action_space s) (Val a)]\<rparr>,
         Inl APIUsageError)"
      using assms by (simp add: Gymnasium_step_def c)
  }
  {
    assume ok: "contains lib (g_action_space s) (Val a) = Inr True"
    with assms show "g_calls (fst (Gymnasium_step lib ops s action)) =
        g_calls s @ [CallContains (g_action_space s) (Val a), CallStep a]
      \<and> g_is_action_checked (fst (Gymnasium_step lib ops s action))"
      by (auto simp: Gymnasium_step_def c split: prod.splits sum.splits option.splits
          dest!: Gymnasium_emulate_keeps)
  }
qed


lemma checks_of_append [simp]:
  "checks_of sp (xs @ ys) = checks_of sp xs + checks_of sp ys"
  by (simp add: checks_of_def)

lemma checks_of_Cons [simp]:
  "checks_of sp (c # cs) = (if is_check_of sp c then 1 else 0) + checks_of sp cs"
  by (simp add: checks_of_def)

lemma checks_of_Nil [simp]: "checks_of sp [] = 0"
  by (simp add: checks_of_def)

lemma seed_and_reset_calls:
  assumes "seed_and_reset ops w seed = (w', r)"
  shows "\<exists>extra. snd w' = snd w @ extra \<and> (\<forall>sp. checks_of sp extra = 0)"
  using assms
  by (auto simp: seed_and_reset_def do_reset_def do_reset_seeded_def do_seed_def
      reset_and_warn_def split: option.splits prod.splits sum.splits)

lemma Gymnasium_setup_keeps:
  assumes "Gymnasium_setup s = (s', r)"
  shows "g_env s' = g_env s \<and> g_calls s' = g_calls s
    \<and> g_is_observation_checked s' = g_is_observation_checked s
    \<and> g_is_action_checked s' = g_is_action_checked s
    \<and> g_observation_space s' = g_observation_space s
    \<and> g_action_space s' = g_action_space s
    \<and> g_atn_dtype s' = g_atn_dtype s"
proof -
  have "s' = fst (Gymnasium_setup s)" using assms by simp
  then show ?thesis by simp
qed

lemma check_space_eq:
  "check_space lib calls data sp =
     (calls @ [CallContains sp data],
      if contains lib sp data = Inr True then Inr True else Inl APIUsageError)"
  using check_space_calls[of lib calls data sp] check_space_result[of lib calls data sp]
  by (simp add: prod_eq_iff)

text \<open>
  The shape of a reset: the views, the packed action type and the action flag are left
  alone; the calls made are calls on the environment, followed by one check of the
  observation view if the observation flag was not set, and the flag is set when that
  check succeeds.
\<close>

lemma Gymnasium_reset_shape:
  assumes res: "Gymnasium_reset lib ops s seed = (s', r)"
  shows "g_observation_space s' = g_observation_space s
    \<and> g_action_space s' = g_action_space s
    \<and> g_atn_dtype s' = g_atn_dtype s
    \<and> g_is_action_checked s' = g_is_action_checked s
    \<and> (\<exists>extra. (\<forall>sp. checks_of sp extra = 0) \<and>
         (g_calls s' = g_calls s @ extra
            \<and> g_is_observation_checked s' = g_is_observation_checked s
            \<and> ((\<exists>out. r = Inr out) \<longrightarrow> g_is_observation_checked s)
          \<or> (\<exists>x. \<not> g_is_observation_checked s
                \<and> g_calls s' = g_calls s @ extra @ [CallContains (g_observation_space s) x]
                \<and> (\<forall>out. r = Inr out \<longrightarrow> fst out = x)
                \<and> (if contains lib (g_observation_space s) x = Inr True
                    then g_is_observation_checked s'
                    else \<not> g_is_observation_checked s' \<and> r = Inl APIUsageError))))"
proof -
  obtain s1 r1 where st:
    "(if \<not> g_initialized s then Gymnasium_setup s else (s, None)) = (s1, r1)"
    by (metis surj_pair)
  have k1: "g_env s1 = g_env s \<and> g_calls s1 = g_calls s
    \<and> g_is_observation_checked s1 = g_is_observation_checked s
    \<and> g_is_action_checked s1 = g_is_action_checked s
    \<and> g_observation_space s1 = g_observation_space s
    \<and> g_action_space s1 = g_action_space s
    \<and> g_atn_dtype s1 = g_atn_dtype s"
  proof (cases "g_initialized s")
    case True
    with st show ?thesis by simp
  next
    case False
    with st have "Gymnasium_setup s = (s1, r1)" by simp
    then show ?thesis by (rule Gymnasium_setup_keeps)
  qed
  show ?thesis
  proof (cases r1)
    case (Some e)
    with st have "Gymnasium_reset lib ops s seed = (s1, Inl e)"
      by (simp add: Gymnasium_reset_def)
    with res have "s' = s1" "r = Inl e" by simp_all
    with k1 show ?thesis by (intro conjI exI[of _ "[]"]) simp_all
  next
    case None
    define s2 where "s2 = s1\<lparr>g_initialized := True, g_done := False\<rparr>"
    obtain w r2 where sr: "seed_and_reset ops (g_env s2, g_calls s2) seed = (w, r2)"
      by (metis surj_pair)
    obtain extra where ex: "snd w = g_calls s @ extra" "\<forall>sp. checks_of sp extra = 0"
      using seed_and_reset_calls[OF sr] k1 by (auto simp: s2_def)
    define t where "t = s2\<lparr>g_env := fst w, g_calls := snd w\<rparr>"
    have kt: "g_calls t = g_calls s @ extra
      \<and> g_is_observation_checked t = g_is_observation_checked s
      \<and> g_is_action_checked t = g_is_action_checked s
      \<and> g_observation_space t = g_observation_space s
      \<and> g_action_space t = g_action_space s
      \<and> g_atn_dtype t = g_atn_dtype s"
      using k1 ex by (simp add: t_def s2_def)
    show ?thesis
    proof (cases r2)
      case (Inl e)
      with st None sr have "Gymnasium_reset lib ops s seed = (t, Inl e)"
        by (simp add: Gymnasium_reset_def Let_def s2_def t_def)
      with res have "s' = t" "r = Inl e" by simp_all
      with kt ex show ?thesis by (intro conjI exI[of _ extra]) simp_all
    next
      case (Inr oi)
      obtain ob info where oi: "oi = (ob, info)" by (cases oi)
      obtain s3 r3 where em: "Gymnasium_emulate lib t ob = (s3, r3)" by (metis surj_pair)
      have k3: "g_calls s3 = g_calls s @ extra
        \<and> g_is_observation_checked s3 = g_is_observation_checked s
        \<and> g_is_action_checked s3 = g_is_action_checked s
        \<and> g_observation_space s3 = g_observation_space s
        \<and> g_action_space s3 = g_action_space s
        \<and> g_atn_dtype s3 = g_atn_dtype s"
        using Gymnasium_emulate_keeps[OF em] kt by simp
      have step: "Gymnasium_reset lib ops s seed =
        (case (s3, r3) of
           (s3, Some e) \<Rightarrow> (s3, Inl e)
         | (s3, None) \<Rightarrow>
             if \<not> g_is_observation_checked s3 then
               (case check_space lib (g_calls s3) (g_the_obs s3) (g_observation_space s3) of
                  (calls, Inl e) \<Rightarrow> (s3\<lparr>g_calls := calls\<rparr>, Inl e)
                | (calls, Inr b) \<Rightarrow>
                    (s3\<lparr>g_calls := calls, g_is_observation_checked := b\<rparr>,
                     Inr (g_the_obs s3, info)))
             else (s3, Inr (g_the_obs s3, info)))"
        using st None sr Inr oi em
        by (simp add: Gymnasium_reset_def Let_def s2_def t_def)
      show ?thesis
      proof (cases r3)
        case (Some e)
        with step res have "s' = s3" "r = Inl e" by simp_all
        with k3 ex show ?thesis by (intro conjI exI[of _ extra]) simp_all
      next
        case n3: None
        show ?thesis
        proof (cases "g_is_observation_checked s")
          case True
          with step res n3 k3 have "s' = s3" by simp
          with k3 ex True show ?thesis by (intro conjI exI[of _ extra]) simp_all
        next
          case False
          let ?x = "g_the_obs s3"
          show ?thesis
          proof (cases "contains lib (g_observation_space s) ?x = Inr True")
            case c: True
            with step res n3 k3 False have
              "s' = s3\<lparr>g_calls := g_calls s @ extra @ [CallContains (g_observation_space s) ?x],
                       g_is_observation_checked := True\<rparr>
               \<and> r = Inr (?x, info)"
              by (simp add: check_space_eq)
            with k3 ex False c show ?thesis
              by (intro conjI exI[of _ extra]) auto
          next
            case c: False
            with step res n3 k3 False have
              "s' = s3\<lparr>g_calls := g_calls s @ extra @ [CallContains (g_observation_space s) ?x]\<rparr>
               \<and> r = Inl APIUsageError"
              by (simp add: check_space_eq)
            with k3 ex False c show ?thesis
              by (intro conjI exI[of _ extra]) auto
          qed
        qed
      qed
    qed
  qed
qed


lemma Gymnasium_step_shape:
  assumes res: "Gymnasium_step lib ops s action = (s', r)"
  shows "g_observation_space s' = g_observation_space s
    \<and> g_action_space s' = g_action_space s
    \<and> g_atn_dtype s' = g_atn_dtype s
    \<and> g_is_observation_checked s' = g_is_observation_checked s
    \<and> (\<exists>extra. (\<forall>sp. checks_of sp extra = 0) \<and>
         (g_calls s' = g_calls s @ extra
            \<and> g_is_action_checked s' = g_is_action_checked s
            \<and> ((\<exists>out. r = Inr out) \<longrightarrow> g_is_action_checked s)
          \<or> (\<exists>a. \<not> g_is_action_checked s
                \<and> nativize (np_dec lib) action (env_action_space ops) (g_atn_dtype s) = Inr a
                \<and> g_calls s' = g_calls s @ [CallContains (g_action_space s) (Val a)] @ extra
                \<and> (if contains lib (g_action_space s) (Val a) = Inr True
                    then g_is_action_checked s'
                    else \<not> g_is_action_checked s' \<and> r = Inl APIUsageError))))"
proof (cases "\<not> g_initialized s \<or> g_done s")
  case True
  then have "Gymnasium_step lib ops s action = (s, Inl APIUsageError)"
    by (cases "g_initialized s") (simp_all add: Gymnasium_step_def)
  with res have "s' = s" "r = Inl APIUsageError" by simp_all
  then show ?thesis by (intro conjI exI[of _ "[]"]) simp_all
next
  case ready: False
  show ?thesis
  proof (cases "nativize (np_dec lib) action (env_action_space ops) (g_atn_dtype s)")
    case (Inl e)
    with ready have "Gymnasium_step lib ops s action = (s, Inl e)"
      by (simp add: Gymnasium_step_def)
    with res have "s' = s" "r = Inl e" by simp_all
    then show ?thesis by (intro conjI exI[of _ "[]"]) simp_all
  next
    case (Inr a)
    show ?thesis
    proof (cases "g_is_action_checked s")
      case True
      with res ready Inr have k: "g_calls s' = g_calls s @ [CallStep a]
        \<and> g_is_observation_checked s' = g_is_observation_checked s
        \<and> g_is_action_checked s' = g_is_action_checked s
        \<and> g_observation_space s' = g_observation_space s
        \<and> g_action_space s' = g_action_space s
        \<and> g_atn_dtype s' = g_atn_dtype s"
        by (auto simp: Gymnasium_step_def split: prod.splits sum.splits option.splits
            dest!: Gymnasium_emulate_keeps)
      with True show ?thesis by (intro conjI exI[of _ "[CallStep a]"]) simp_all
    next
      case False
      show ?thesis
      proof (cases "contains lib (g_action_space s) (Val a) = Inr True")
        case c: True
        from res ready Inr False c have k:
          "g_calls s' = g_calls s @ [CallContains (g_action_space s) (Val a), CallStep a]
          \<and> g_is_observation_checked s' = g_is_observation_checked s
          \<and> g_is_action_checked s'
          \<and> g_observation_space s' = g_observation_space s
          \<and> g_action_space s' = g_action_space s
          \<and> g_atn_dtype s' = g_atn_dtype s"
          by (auto simp: Gymnasium_step_def check_space_eq
              split: prod.splits sum.splits option.splits dest!: Gymnasium_emulate_keeps)
        with False Inr c show ?thesis
          by (intro conjI exI[of _ "[CallStep a]"]) auto
      next
        case c: False
        with res ready Inr False have
          "s' = s\<lparr>g_calls := g_calls s @ [CallContains (g_action_space s) (Val a)]\<rparr>
           \<and> r = Inl APIUsageError"
          by (simp add: Gymnasium_step_def check_space_eq)
        with False Inr c show ?thesis
          by (intro conjI exI[of _ "[]"]) auto
      qed
    qed
  qed
qed

lemma gym_exec_spaces:
  "g_observation_space (gym_exec lib ops s c) = g_observation_space s
   \<and> g_action_space (gym_exec lib ops s c) = g_action_space s
   \<and> g_atn_dtype (gym_exec lib ops s c) = g_atn_dtype s"
proof (cases c)
  case (GReset seed)
  obtain s' r where "Gymnasium_reset lib ops s seed = (s', r)" by (metis surj_pair)
  from Gymnasium_reset_shape[OF this] this GReset show ?thesis by (simp add: gym_exec_def)
next
  case (GStep action)
  obtain s' r where "Gymnasium_step lib ops s action = (s', r)" by (metis surj_pair)
  from Gymnasium_step_shape[OF this] this GStep show ?thesis by (simp add: gym_exec_def)
qed

lemma gym_run_spaces:
  "g_observation_space (gym_run lib ops s cmds) = g_observation_space s
   \<and> g_action_space (gym_run lib ops s cmds) = g_action_space s
   \<and> g_atn_dtype (gym_run lib ops s cmds) = g_atn_dtype s"
proof (induction cmds arbitrary: s)
  case Nil
  show ?case by (simp add: gym_run_def)
next
  case (Cons c cmds)
  have "gym_run lib ops s (c # cmds) = gym_run lib ops (gym_exec lib ops s c) cmds"
    by (simp add: gym_run_def)
  with Cons.IH[of "gym_exec lib ops s c"] gym_exec_spaces[of lib ops s c]
  show ?case by simp
qed

lemma GymnasiumPufferEnv_spaces:
  assumes "GymnasiumPufferEnv ops e = Inr s0"
  shows "emulate_action_space (env_action_space ops) = Inr (g_action_space s0, g_atn_dtype s0)"
    and "\<exists>odt. emulate_observation_space (env_observation_space ops)
           = Inr (g_observation_space s0, odt)"
    and "g_calls s0 = []" and "\<not> g_is_observation_checked s0" and "\<not> g_is_action_checked s0"
  using assms by (auto simp: GymnasiumPufferEnv_def split: sum.splits prod.splits)

text \<open>
  C10. The first step of a single-agent adapter, in any state a caller can bring it to
  from its constructor in which a step is allowed and no action has been checked yet.
  With \<open>aspace\<close> and \<open>adt\<close> the flat action view and the packed action type that
  \<open>emulate_action_space\<close> derives from the action space of the wrapped environment
  (whether or not that is the space itself): the flat action is unpacked first, and when
  that fails no check is made and the adapter is left as it was; otherwise the first call
  the step makes is the containment check of the unpacked action \<open>a\<close> against \<open>aspace\<close>,
  the adapter's view and not the action space of the environment, and only when it
  succeeds is the environment stepped, with the same \<open>a\<close>.
\<close>

theorem first_step_check:
  assumes "GymnasiumPufferEnv ops e = Inr s0"
    and "s = gym_run lib ops s0 cmds"
    and "g_initialized s" and "\<not> g_done s" and "\<not> g_is_action_checked s"
  shows "\<exists>aspace adt.
     emulate_action_space (env_action_space ops) = Inr (aspace, adt)
     \<and> (case nativize (np_dec lib) action (env_action_space ops) adt of
          Inl err \<Rightarrow> Gymnasium_step lib ops s action = (s, Inl err)
        | Inr a \<Rightarrow>
            if contains lib aspace (Val a) = Inr True
            then g_calls (fst (Gymnasium_step lib ops s action))
                   = g_calls s @ [CallContains aspace (Val a), CallStep a]
                 \<and> g_is_action_checked (fst (Gymnasium_step lib ops s action))
            else Gymnasium_step lib ops s action
                   = (s\<lparr>g_calls := g_calls s @ [CallContains aspace (Val a)]\<rparr>,
                      Inl APIUsageError))"
proof -
  have sp: "g_action_space s = g_action_space s0" "g_atn_dtype s = g_atn_dtype s0"
    using gym_run_spaces[of lib ops s0 cmds] assms(2) by simp_all
  have em: "emulate_action_space (env_action_space ops)
      = Inr (g_action_space s, g_atn_dtype s)"
    using GymnasiumPufferEnv_spaces(1)[OF assms(1)] sp by simp
  have "case nativize (np_dec lib) action (env_action_space ops) (g_atn_dtype s) of
          Inl err \<Rightarrow> Gymnasium_step lib ops s action = (s, Inl err)
        | Inr a \<Rightarrow>
            if contains lib (g_action_space s) (Val a) = Inr True
            then g_calls (fst (Gymnasium_step lib ops s action))
                   = g_calls s @ [CallContains (g_action_space s) (Val a), CallStep a]
                 \<and> g_is_action_checked (fst (Gymnasium_step lib ops s action))
            else Gymnasium_step lib ops s action
                   = (s\<lparr>g_calls := g_calls s @ [CallContains (g_action_space s) (Val a)]\<rparr>,
                      Inl APIUsageError)"
  proof (cases "nativize (np_dec lib) action (env_action_space ops) (g_atn_dtype s)")
    case (Inl err)
    with assms(3,4) show ?thesis by (simp add: Gymnasium_step_def)
  next
    case (Inr a)
    from Gymnasium_step_unchecked[OF assms(3,4,5) Inr] Inr show ?thesis by simp
  qed
  with em show ?thesis by blast
qed

theorem first_step_check_witness:
  "GymnasiumPufferEnv legacy_env 0 = Inr legacy_adapter
   \<and> g_initialized (gym_run int_lib legacy_env legacy_adapter [GReset None])
   \<and> \<not> g_done (gym_run int_lib legacy_env legacy_adapter [GReset None])
   \<and> \<not> g_is_action_checked (gym_run int_lib legacy_env legacy_adapter [GReset None])
   \<and> env_action_space legacy_env = Tuple [Discrete 2, Discrete 3]
   \<and> emulate_action_space (env_action_space legacy_env)
       = Inr (MultiDiscrete [2, 3], Struct [(''f0'', Base Int64 []), (''f1'', Base Int64 [])])
   \<and> nativize (np_dec int_lib) legacy_action (env_action_space legacy_env)
         (Struct [(''f0'', Base Int64 []), (''f1'', Base Int64 [])])
       = Inr (STuple [SVal 1, SVal 2])
   \<and> g_calls (fst (Gymnasium_step int_lib legacy_env
         (gym_run int_lib legacy_env legacy_adapter [GReset None]) legacy_action))
       = g_calls (gym_run int_lib legacy_env legacy_adapter [GReset None])
         @ [CallContains (MultiDiscrete [2, 3]) (Val (STuple [SVal 1, SVal 2])),
            CallStep (STuple [SVal 1, SVal 2])]"
proof -
  let ?s = "gym_run int_lib legacy_env legacy_adapter [GReset None]"
  let ?dt = "Struct [(''f0'', Base Int64 []), (''f1'', Base Int64 [])]"
  have c: "GymnasiumPufferEnv legacy_env 0 = Inr legacy_adapter" by code_simp
  have i: "g_initialized ?s" by code_simp
  have d: "\<not> g_done ?s" by code_simp
  have k: "\<not> g_is_action_checked ?s" by code_simp
  have sp: "env_action_space legacy_env = Tuple [Discrete 2, Discrete 3]" by code_simp
  have em: "emulate_action_space (env_action_space legacy_env)
      = Inr (MultiDiscrete [2, 3], ?dt)" by code_simp
  have n: "nativize (np_dec int_lib) legacy_action (env_action_space legacy_env) ?dt
      = Inr (STuple [SVal 1, SVal 2])" by code_simp
  have ok: "contains int_lib (MultiDiscrete [2, 3]) (Val (STuple [SVal 1, SVal 2]))
      = Inr True" by (simp add: int_lib_def)
  from first_step_check[OF c refl i d k, of legacy_action] em n ok
  have "g_calls (fst (Gymnasium_step int_lib legacy_env ?s legacy_action))
       = g_calls ?s @ [CallContains (MultiDiscrete [2, 3]) (Val (STuple [SVal 1, SVal 2])),
            CallStep (STuple [SVal 1, SVal 2])]"
    by simp
  with c i d k sp em n show ?thesis by (simp only: simp_thms)
qed

end
